theory Spec2Isabelle
  imports Complex_Main "HOL-Library.Product_Lexorder"
begin

section \<open>Price series\<close>

text \<open>
  The scripts work on a pandas DataFrame of daily candles indexed by a DatetimeIndex.
  A row is a record, the frame is the list of its rows in frame order. An index label is
  a calendar day (year, month, day): daily candles carry no time of day. With the
  lexicographic order on triples, \<open>\<le>\<close> on labels is chronological order.

  Python floats are idealised as real numbers throughout; NaN, where pandas produces it
  for a missing value, is \<open>None\<close>.
\<close>

type_synonym timestamp = "nat \<times> nat \<times> nat"

definition year_of :: "timestamp \<Rightarrow> nat" where
  "year_of t = fst t"

definition month_of :: "timestamp \<Rightarrow> nat" where
  "month_of t = fst (snd t)"

definition day_of :: "timestamp \<Rightarrow> nat" where
  "day_of t = snd (snd t)"

record bar =
  timestamp :: timestamp
  open_p :: real
  high_p :: real
  low_p :: real
  close_p :: real
  volume :: real

text \<open>
  The data model of the series: labels strictly ascending (hence unique), each an existing
  calendar day, prices positive.
  The scripts do not check it; the loader sorts, and the theorems below say where they
  rely on it.
\<close>

definition ascending :: "bar list \<Rightarrow> bool" where
  "ascending df = sorted_wrt (<) (map timestamp df)"

definition positive_prices :: "bar list \<Rightarrow> bool" where
  "positive_prices df = list_all (\<lambda>b. 0 < open_p b \<and> 0 < close_p b) df"

datatype py_error = ValueError | KeyError | TypeError | IndexError

subsection \<open>pandas.Timestamp(year, month, day)\<close>

text \<open>
  The constructor raises ValueError (day is out of range for month) when the day does not
  exist in that month of the proleptic Gregorian calendar.
\<close>

definition is_leap :: "nat \<Rightarrow> bool" where
  "is_leap y = (y mod 4 = 0 \<and> (y mod 100 \<noteq> 0 \<or> y mod 400 = 0))"

definition days_in_month :: "nat \<Rightarrow> nat \<Rightarrow> nat" where
  "days_in_month y m =
     (if m = 2 then (if is_leap y then 29 else 28)
      else if m = 4 \<or> m = 6 \<or> m = 9 \<or> m = 11 then 30 else 31)"

definition Timestamp :: "nat \<Rightarrow> nat \<Rightarrow> int \<Rightarrow> py_error + timestamp" where
  "Timestamp y m d =
     (if 1 \<le> m \<and> m \<le> 12 \<and> 1 \<le> d \<and> d \<le> int (days_in_month y m)
      then Inr (y, m, nat d) else Inl ValueError)"

definition valid_dates :: "bar list \<Rightarrow> bool" where
  "valid_dates df =
     list_all (\<lambda>b. Timestamp (year_of (timestamp b)) (month_of (timestamp b))
                                (int (day_of (timestamp b))) = Inr (timestamp b)) df"

section \<open>Purchase log entries\<close>

text \<open>
  Both engines append a dict per purchase. The keys they share are the base record; the
  scheduled engine adds \<open>year\<close> and \<open>month\<close>, the dip engine adds \<open>daily_return\<close>.
\<close>

record purchase =
  p_date :: timestamp
  p_price :: real
  p_investment :: real
  p_coins_bought :: real
  p_total_invested :: real
  p_total_coins :: real
  p_avg_price :: real

record dca_purchase = purchase +
  p_year :: nat
  p_month :: nat

record dip_purchase = purchase +
  p_daily_return :: real

text \<open>Python's \<open>sum\<close> over a list: a left fold from 0.\<close>

definition py_sum :: "real list \<Rightarrow> real" where
  "py_sum xs = foldl (+) 0 xs"

section \<open>Buy the Dip (buy\_the\_dip.py)\<close>

text \<open>\<open>BuyTheDip.__init__\<close>: the \<open>daily_return\<close> column is the intrabar return.\<close>

definition daily_return :: "bar \<Rightarrow> real" where
  "daily_return row = (close_p row - open_p row) / open_p row * 100"

text \<open>
  The local variables that the engines' loops update. Both loops keep the running totals
  and the purchase log; \<open>run_strategy\<close> keeps three more.
\<close>

record 'p locals =
  total_invested :: real
  total_coins :: real
  purchases :: "'p list"

record dip_locals = "dip_purchase locals" +
  accumulated_cash :: real
  dip_days :: nat
  missed_opportunities :: nat

definition dip_init :: dip_locals where
  "dip_init = \<lparr>total_invested = 0, total_coins = 0, purchases = [],
               accumulated_cash = 0, dip_days = 0, missed_opportunities = 0\<rparr>"

text \<open>One iteration of \<open>for idx, row in self.df.iterrows()\<close>.\<close>

definition dip_step :: "real \<Rightarrow> real \<Rightarrow> dip_locals \<Rightarrow> bar \<Rightarrow> dip_locals" where
  "dip_step daily_savings dip_threshold s row =
     (let s1 = s\<lparr>accumulated_cash := accumulated_cash s + daily_savings\<rparr> in
      if daily_return row \<le> dip_threshold then
        (let s2 = s1\<lparr>dip_days := dip_days s1 + 1\<rparr> in
         if accumulated_cash s2 \<ge> 100 then
           (let price = close_p row;
                investment = accumulated_cash s2;
                coins_bought = investment / price;
                s3 = s2\<lparr>total_coins := total_coins s2 + coins_bought\<rparr>;
                s4 = s3\<lparr>total_invested := total_invested s3 + investment\<rparr>;
                purchase = \<lparr>p_date = timestamp row, p_price = price,
                            p_investment = investment, p_coins_bought = coins_bought,
                            p_total_invested = total_invested s4,
                            p_total_coins = total_coins s4,
                            p_avg_price = (if total_coins s4 > 0
                                           then total_invested s4 / total_coins s4 else 0),
                            p_daily_return = daily_return row\<rparr>
            in s4\<lparr>purchases := purchases s4 @ [purchase], accumulated_cash := 0\<rparr>)
         else s2\<lparr>missed_opportunities := missed_opportunities s2 + 1\<rparr>)
      else s1)"

fun dip_loop :: "real \<Rightarrow> real \<Rightarrow> dip_locals \<Rightarrow> bar list \<Rightarrow> dip_locals" where
  "dip_loop daily_savings dip_threshold s [] = s"
| "dip_loop daily_savings dip_threshold s (row # rows) =
     dip_loop daily_savings dip_threshold (dip_step daily_savings dip_threshold s row) rows"

text \<open>The result dict; the keys shared by both engines are the base record.\<close>

record 'p results =
  r_total_invested :: real
  r_total_coins :: real
  r_avg_cost :: real
  r_current_price :: real
  r_current_value :: real
  r_total_return :: real
  r_return_pct :: real
  r_num_purchases :: nat
  r_first_purchase :: timestamp
  r_last_purchase :: timestamp
  r_purchases :: "'p list"

record dip_results = "dip_purchase results" +
  r_accumulated_cash :: real
  r_current_value_with_cash :: real
  r_total_days :: nat
  r_total_should_save :: real
  r_dip_days :: nat
  r_missed_opportunities :: nat

text \<open>
  \<open>run_strategy\<close>. The banner printed before the loop formats
  \<open>self.df.index.min()\<close> with \<open>strftime\<close>; on an empty frame that is NaT, whose
  \<open>strftime\<close> raises ValueError. The function returns the result dict, or None when
  the purchase log is empty.
\<close>

definition dip_finish :: "bar list \<Rightarrow> real \<Rightarrow> dip_locals \<Rightarrow> dip_results option" where
  "dip_finish df daily_savings s =
     (if length (purchases s) > 0 then
        (let total_days = length df;
             current_price = close_p (last df);
             current_value = total_coins s * current_price;
             total_should_save = real total_days * daily_savings;
             current_value_with_cash = current_value + accumulated_cash s;
             total_return = current_value_with_cash - total_should_save;
             return_pct = (if total_should_save > 0
                           then (total_return / total_should_save) * 100 else 0);
             avg_cost = (if total_coins s > 0 then total_invested s / total_coins s else 0)
         in Some \<lparr>r_total_invested = total_invested s, r_total_coins = total_coins s,
                   r_avg_cost = avg_cost, r_current_price = current_price,
                   r_current_value = current_value, r_total_return = total_return,
                   r_return_pct = return_pct, r_num_purchases = length (purchases s),
                   r_first_purchase = p_date (hd (purchases s)),
                   r_last_purchase = p_date (last (purchases s)),
                   r_purchases = purchases s,
                   r_accumulated_cash = accumulated_cash s,
                   r_current_value_with_cash = current_value_with_cash,
                   r_total_days = total_days, r_total_should_save = total_should_save,
                   r_dip_days = dip_days s,
                   r_missed_opportunities = missed_opportunities s\<rparr>)
      else None)"

definition run_strategy :: "bar list \<Rightarrow> real \<Rightarrow> real \<Rightarrow> py_error + dip_results option" where
  "run_strategy df monthly_savings dip_threshold =
     (let daily_savings = monthly_savings / 30 in
      if df = [] then Inl ValueError
      else Inr (dip_finish df daily_savings
                  (dip_loop daily_savings dip_threshold dip_init df)))"

section \<open>Simple DCA (simple\_dca.py)\<close>

text \<open>
  \<open>self.df.groupby(['year', 'month']).size().reset_index()[['year', 'month']]\<close>:
  the distinct (year, month) pairs of the frame, in ascending order of the key.
\<close>

definition unique_months :: "bar list \<Rightarrow> (nat \<times> nat) list" where
  "unique_months df =
     sort (remdups (map (\<lambda>b. (year_of (timestamp b), month_of (timestamp b))) df))"

text \<open>
  \<open>self.df.loc[label, 'close']\<close> on a frame whose labels are unique: the close of
  the row with that label, KeyError when there is none.
\<close>

definition loc_close :: "bar list \<Rightarrow> timestamp \<Rightarrow> py_error + real" where
  "loc_close df label =
     (case find (\<lambda>b. timestamp b = label) df of
        None \<Rightarrow> Inl KeyError
      | Some b \<Rightarrow> Inr (close_p b))"

text \<open>
  Lines 83 to 93 of \<open>run_dca\<close>: the buy date of a month from the labels of its rows.
  The caller has checked that the month has rows.
\<close>

definition resolve_buy_date :: "timestamp list \<Rightarrow> nat \<Rightarrow> nat \<Rightarrow> int \<Rightarrow> py_error + timestamp" where
  "resolve_buy_date available_dates year month day_of_month =
     (case Timestamp year month day_of_month of
        Inl e \<Rightarrow> Inl e
      | Inr target_date \<Rightarrow>
          (let matching_dates = filter (\<lambda>d. d \<ge> target_date) available_dates
           in Inr (if length matching_dates > 0 then hd matching_dates
                   else last available_dates)))"

text \<open>One iteration of \<open>for idx, row in unique_months.iterrows()\<close>.\<close>

definition dca_step ::
  "bar list \<Rightarrow> real \<Rightarrow> int \<Rightarrow> dca_purchase locals \<Rightarrow> nat \<times> nat \<Rightarrow> py_error + dca_purchase locals" where
  "dca_step df monthly_investment day_of_month s row =
     (let year = fst row; month = snd row;
          month_data = filter (\<lambda>b. year_of (timestamp b) = year \<and>
                                    month_of (timestamp b) = month) df
      in if length month_data = 0 then Inr s
         else
           (case resolve_buy_date (map timestamp month_data) year month day_of_month of
              Inl e \<Rightarrow> Inl e
            | Inr buy_date \<Rightarrow>
                (case loc_close df buy_date of
                   Inl e \<Rightarrow> Inl e
                 | Inr price \<Rightarrow>
                     (let coins_bought = monthly_investment / price;
                          s1 = s\<lparr>total_coins := total_coins s + coins_bought\<rparr>;
                          s2 = s1\<lparr>total_invested := total_invested s1 + monthly_investment\<rparr>;
                          purchase = \<lparr>p_date = buy_date, p_price = price,
                                      p_investment = monthly_investment,
                                      p_coins_bought = coins_bought,
                                      p_total_invested = total_invested s2,
                                      p_total_coins = total_coins s2,
                                      p_avg_price = total_invested s2 / total_coins s2,
                                      p_year = year, p_month = month\<rparr>
                      in Inr (s2\<lparr>purchases := purchases s2 @ [purchase]\<rparr>)))))"

fun dca_loop ::
  "bar list \<Rightarrow> real \<Rightarrow> int \<Rightarrow> dca_purchase locals \<Rightarrow> (nat \<times> nat) list \<Rightarrow> py_error + dca_purchase locals" where
  "dca_loop df monthly_investment day_of_month s [] = Inr s"
| "dca_loop df monthly_investment day_of_month s (row # rows) =
     (case dca_step df monthly_investment day_of_month s row of
        Inl e \<Rightarrow> Inl e
      | Inr s' \<Rightarrow> dca_loop df monthly_investment day_of_month s' rows)"

definition dca_init :: "dca_purchase locals" where
  "dca_init = \<lparr>total_invested = 0, total_coins = 0, purchases = []\<rparr>"

type_synonym dca_results = "dca_purchase results"

definition dca_finish :: "bar list \<Rightarrow> dca_purchase locals \<Rightarrow> dca_results option" where
  "dca_finish df s =
     (if length (purchases s) > 0 then
        (let current_price = close_p (last df);
             current_value = total_coins s * current_price;
             total_return = current_value - total_invested s;
             return_pct = (if total_invested s > 0
                           then (total_return / total_invested s) * 100 else 0);
             avg_cost = (if total_coins s > 0 then total_invested s / total_coins s else 0)
         in Some \<lparr>r_total_invested = total_invested s, r_total_coins = total_coins s,
                   r_avg_cost = avg_cost, r_current_price = current_price,
                   r_current_value = current_value, r_total_return = total_return,
                   r_return_pct = return_pct, r_num_purchases = length (purchases s),
                   r_first_purchase = p_date (hd (purchases s)),
                   r_last_purchase = p_date (last (purchases s)),
                   r_purchases = purchases s\<rparr>)
      else None)"

text \<open>
  \<open>run_dca\<close>. As in \<open>run_strategy\<close>, the banner printed before the loop raises
  ValueError on an empty frame.
\<close>

definition run_dca :: "bar list \<Rightarrow> real \<Rightarrow> int \<Rightarrow> py_error + dca_results option" where
  "run_dca df monthly_investment day_of_month =
     (if df = [] then Inl ValueError
      else
        (case dca_loop df monthly_investment day_of_month dca_init (unique_months df) of
           Inl e \<Rightarrow> Inl e
         | Inr s \<Rightarrow> Inr (dca_finish df s)))"

section \<open>Strategy comparison (compare\_strategies.py)\<close>

text \<open>
  The scoring part of \<open>print_comparison\<close>, lines 117 to 204. \<open>scores\<close> is a dict with
  the keys 'Simple DCA' and 'Buy the Dip', in that order; \<open>max(scores, key=scores.get)\<close>
  returns the first key of maximal score. Subscripting a result that is None raises
  TypeError.
\<close>

record scores =
  Simple_DCA :: nat
  Buy_the_Dip :: nat

definition comparison_scores :: "dca_results \<Rightarrow> dip_results \<Rightarrow> scores" where
  "comparison_scores dca_r dip_r =
     (let dca_btc = r_total_coins dca_r; dip_btc = r_total_coins dip_r;
          dca_invested = r_total_invested dca_r; dip_invested = r_total_invested dip_r;
          dca_avg = r_avg_cost dca_r; dip_avg = r_avg_cost dip_r;
          dca_return = r_return_pct dca_r; dip_return = r_return_pct dip_r;
          dca_util = (dca_invested / r_total_invested dca_r) * 100;
          dip_util = (dip_invested / r_total_should_save dip_r) * 100;
          sc0 = \<lparr>Simple_DCA = 0, Buy_the_Dip = 0\<rparr>;
          sc1 = (if dca_btc > dip_btc then sc0\<lparr>Simple_DCA := Simple_DCA sc0 + 3\<rparr>
                 else sc0\<lparr>Buy_the_Dip := Buy_the_Dip sc0 + 3\<rparr>);
          sc2 = (if dca_avg < dip_avg then sc1\<lparr>Simple_DCA := Simple_DCA sc1 + 2\<rparr>
                 else sc1\<lparr>Buy_the_Dip := Buy_the_Dip sc1 + 2\<rparr>);
          sc3 = (if dca_return > dip_return then sc2\<lparr>Simple_DCA := Simple_DCA sc2 + 2\<rparr>
                 else sc2\<lparr>Buy_the_Dip := Buy_the_Dip sc2 + 2\<rparr>);
          sc4 = (if dca_util > dip_util then sc3\<lparr>Simple_DCA := Simple_DCA sc3 + 1\<rparr>
                 else sc3\<lparr>Buy_the_Dip := Buy_the_Dip sc3 + 1\<rparr>)
      in sc4)"

definition max_scores_key :: "scores \<Rightarrow> string" where
  "max_scores_key sc =
     (if Simple_DCA sc \<ge> Buy_the_Dip sc then ''Simple DCA'' else ''Buy the Dip'')"

text \<open>
  \<open>print_comparison\<close>, as far as the scores and the winner it prints.
\<close>

definition print_comparison ::
  "dca_results option \<Rightarrow> dip_results option \<Rightarrow> py_error + scores \<times> string" where
  "print_comparison dca dip =
     (case dca of
        None \<Rightarrow> Inl TypeError
      | Some dca_r \<Rightarrow>
          (case dip of
             None \<Rightarrow> Inl TypeError
           | Some dip_r \<Rightarrow>
               Inr (comparison_scores dca_r dip_r,
                    max_scores_key (comparison_scores dca_r dip_r))))"

text \<open>
  \<open>run_all_strategies\<close> runs both engines on the same frame with the same monthly
  amount; \<open>main\<close> then prints the comparison. An exception of either run propagates.
\<close>

definition run_all_strategies ::
  "bar list \<Rightarrow> real \<Rightarrow> real \<Rightarrow> int \<Rightarrow> py_error + dca_results option \<times> dip_results option" where
  "run_all_strategies df monthly_investment dip_threshold day_of_month =
     (case run_dca df monthly_investment day_of_month of
        Inl e \<Rightarrow> Inl e
      | Inr simple_dca_results \<Rightarrow>
          (case run_strategy df monthly_investment dip_threshold of
             Inl e \<Rightarrow> Inl e
           | Inr buy_dip_results \<Rightarrow> Inr (simple_dca_results, buy_dip_results)))"

definition compare_strategies ::
  "bar list \<Rightarrow> real \<Rightarrow> real \<Rightarrow> int \<Rightarrow> py_error + scores \<times> string" where
  "compare_strategies df monthly_investment dip_threshold day_of_month =
     (case run_all_strategies df monthly_investment dip_threshold day_of_month of
        Inl e \<Rightarrow> Inl e
      | Inr (dca, dip) \<Rightarrow> print_comparison dca dip)"

subsection \<open>The tally as the specification words it\<close>

text \<open>
  The four metrics the scoring compares, each as the test the code makes for Simple DCA.
  An unweighted tally gives one point per metric to the strategy that wins it; the
  comparison with that tally in place of the code's scores is otherwise the same.
\<close>

definition metrics_won :: "dca_results \<Rightarrow> dip_results \<Rightarrow> bool list" where
  "metrics_won dca_r dip_r =
     [r_total_coins dca_r > r_total_coins dip_r,
      r_avg_cost dca_r < r_avg_cost dip_r,
      r_return_pct dca_r > r_return_pct dip_r,
      (r_total_invested dca_r / r_total_invested dca_r) * 100 >
        (r_total_invested dip_r / r_total_should_save dip_r) * 100]"

definition unweighted_scores :: "dca_results \<Rightarrow> dip_results \<Rightarrow> scores" where
  "unweighted_scores dca_r dip_r =
     \<lparr>Simple_DCA = length (filter (\<lambda>w. w) (metrics_won dca_r dip_r)),
      Buy_the_Dip = length (filter (\<lambda>w. \<not> w) (metrics_won dca_r dip_r))\<rparr>"

definition compare_strategies_unweighted ::
  "bar list \<Rightarrow> real \<Rightarrow> real \<Rightarrow> int \<Rightarrow> py_error + scores \<times> string" where
  "compare_strategies_unweighted df monthly_investment dip_threshold day_of_month =
     (case run_all_strategies df monthly_investment dip_threshold day_of_month of
        Inl e \<Rightarrow> Inl e
      | Inr (Some dca_r, Some dip_r) \<Rightarrow>
          Inr (unweighted_scores dca_r dip_r, max_scores_key (unweighted_scores dca_r dip_r))
      | Inr _ \<Rightarrow> Inl TypeError)"

section \<open>Monthly drops (analyze\_drops.py)\<close>

text \<open>
  \<open>cummax\<close> and \<open>min\<close> of a pandas Series. \<open>iloc[0]\<close>, \<open>iloc[-1]\<close> and the
  minimum are taken of a group that \<open>groupby\<close> made, which has at least one row; on an
  empty list the model reports the IndexError that \<open>iloc\<close> would raise.
\<close>

fun cummax_from :: "real \<Rightarrow> real list \<Rightarrow> real list" where
  "cummax_from m [] = []"
| "cummax_from m (x # xs) = max m x # cummax_from (max m x) xs"

definition cummax :: "real list \<Rightarrow> real list" where
  "cummax xs = (case xs of [] \<Rightarrow> [] | x # rest \<Rightarrow> x # cummax_from x rest)"

definition series_min :: "real list \<Rightarrow> real" where
  "series_min xs = foldl min (hd xs) (tl xs)"

record drop_row =
  Period :: "nat \<times> nat"
  Open :: real
  Close :: real
  Return_pct :: real
  Max_Drawdown_pct :: real
  Max_Daily_Drop_pct :: real

text \<open>The body of \<open>for period, group in df.groupby('year_month')\<close>.\<close>

definition drop_entry :: "nat \<times> nat \<Rightarrow> bar list \<Rightarrow> py_error + drop_row" where
  "drop_entry period grp =
     (if grp = [] then Inl IndexError
      else
        (let open_price = open_p (hd grp);
             close_price = close_p (last grp);
             monthly_return = ((close_price - open_price) / open_price) * 100;
             rolling_max = cummax (map high_p grp);
             daily_drawdown = map (\<lambda>(l, m). (l - m) / m * 100)
                                  (zip (map low_p grp) rolling_max);
             max_drawdown = series_min daily_drawdown;
             daily_drop = map (\<lambda>b. ((close_p b - open_p b) / open_p b) * 100) grp;
             max_daily_drop = series_min daily_drop
         in Inr \<lparr>Period = period, Open = open_price, Close = close_price,
                  Return_pct = monthly_return, Max_Drawdown_pct = max_drawdown,
                  Max_Daily_Drop_pct = max_daily_drop\<rparr>))"

text \<open>
  \<open>groupby\<close> yields one group per period that occurs in the frame, in ascending order
  of the period, each with its rows in frame order.
\<close>

definition groupby_year_month :: "bar list \<Rightarrow> ((nat \<times> nat) \<times> bar list) list" where
  "groupby_year_month df =
     map (\<lambda>period. (period, filter (\<lambda>b. (year_of (timestamp b), month_of (timestamp b)) = period) df))
         (unique_months df)"

text \<open>The loop of \<open>analyze_drops\<close> that fills the \<open>results\<close> list.\<close>

fun drops_loop :: "((nat \<times> nat) \<times> bar list) list \<Rightarrow> drop_row list \<Rightarrow> py_error + drop_row list" where
  "drops_loop [] results = Inr results"
| "drops_loop ((period, grp) # rest) results =
     (case drop_entry period grp of
        Inl e \<Rightarrow> Inl e
      | Inr entry \<Rightarrow> drops_loop rest (results @ [entry]))"

definition analyze_drops_results :: "bar list \<Rightarrow> py_error + drop_row list" where
  "analyze_drops_results df = drops_loop (groupby_year_month df) []"

section \<open>August returns (analyze\_august.py)\<close>

text \<open>
  \<open>Series.pct_change()\<close> on a series without missing values: NaN for the first row,
  then \<open>data / data.shift(1) - 1\<close>.
\<close>

definition pct_change :: "real list \<Rightarrow> real option list" where
  "pct_change xs =
     (case xs of
        [] \<Rightarrow> []
      | x # rest \<Rightarrow> None # map (\<lambda>(prev, cur). Some (cur / prev - 1)) (zip xs rest))"

definition times100 :: "real option list \<Rightarrow> real option list" where
  "times100 col = map (map_option (\<lambda>r. r * 100)) col"

text \<open>
  \<open>df.loc[labels, 'daily_return']\<close> on a frame whose labels are unique: the column's
  value at each label, KeyError when a label is missing.
\<close>

fun loc_column :: "(timestamp \<times> 'a) list \<Rightarrow> timestamp list \<Rightarrow> py_error + 'a list" where
  "loc_column col [] = Inr []"
| "loc_column col (label # labels) =
     (case map_of col label of
        None \<Rightarrow> Inl KeyError
      | Some v \<Rightarrow>
          (case loc_column col labels of
             Inl e \<Rightarrow> Inl e
           | Inr vs \<Rightarrow> Inr (v # vs)))"

record august_row =
  a_bar :: bar
  a_day :: nat
  a_year :: nat
  a_daily_return :: "real option"

text \<open>
  Lines 24 to 36 of \<open>analyze_august\<close>: the August rows with their \<open>daily_return\<close>
  column, which line 32 fills from the August closes alone and line 36 overwrites with
  the column computed on the whole frame.
\<close>

definition august_line32 :: "bar list \<Rightarrow> august_row list" where
  "august_line32 df =
     (let august_data = filter (\<lambda>b. month_of (timestamp b) = 8) df
      in map (\<lambda>(b, r). \<lparr>a_bar = b, a_day = day_of (timestamp b),
                         a_year = year_of (timestamp b), a_daily_return = r\<rparr>)
             (zip august_data (times100 (pct_change (map close_p august_data)))))"

definition august_daily_returns :: "bar list \<Rightarrow> py_error + august_row list" where
  "august_daily_returns df =
     (let august_data = august_line32 df;
          df_daily_return = zip (map timestamp df) (times100 (pct_change (map close_p df)))
      in case loc_column df_daily_return (map (\<lambda>row. timestamp (a_bar row)) august_data) of
           Inl e \<Rightarrow> Inl e
         | Inr col \<Rightarrow>
             Inr (map (\<lambda>(row, r). row\<lparr>a_daily_return := r\<rparr>) (zip august_data col)))"

section \<open>Invariant of the purchase log\<close>

text \<open>
  The running totals \<open>ti\<close>, \<open>tc\<close> of a loop agree with its purchase log \<open>ps\<close>: they are
  the sums over the log, and every entry records the sums up to itself and their quotient.
\<close>

definition totals_inv :: "real \<Rightarrow> real \<Rightarrow> 'a purchase_scheme list \<Rightarrow> bool" where
  "totals_inv ti tc ps =
     (ti = py_sum (map p_investment ps) \<and> tc = py_sum (map p_coins_bought ps) \<and>
      (\<forall>i < length ps.
         p_total_invested (ps ! i) = py_sum (map p_investment (take (Suc i) ps)) \<and>
         p_total_coins (ps ! i) = py_sum (map p_coins_bought (take (Suc i) ps)) \<and>
         p_avg_price (ps ! i) = p_total_invested (ps ! i) / p_total_coins (ps ! i)))"

text \<open>
  An entry of the scheduled engine's log that spends \<open>monthly_investment\<close> at the close
  of the row whose label lines 83 to 93 resolve for the entry's month.
\<close>

definition scheduled_purchase :: "bar list \<Rightarrow> real \<Rightarrow> int \<Rightarrow> dca_purchase \<Rightarrow> bool" where
  "scheduled_purchase df monthly_investment day_of_month p =
     (p_investment p = monthly_investment \<and>
      p_coins_bought p = monthly_investment / p_price p \<and>
      resolve_buy_date
        (map timestamp (filter (\<lambda>b. year_of (timestamp b) = p_year p \<and>
                                      month_of (timestamp b) = p_month p) df))
        (p_year p) (p_month p) day_of_month = Inr (p_date p) \<and>
      (\<exists>b \<in> set df. timestamp b = p_date p \<and> close_p b = p_price p \<and>
                     year_of (timestamp b) = p_year p \<and> month_of (timestamp b) = p_month p))"

text \<open>The result dict of a run that returned one.\<close>

definition returned :: "py_error + 'a option \<Rightarrow> 'a option" where
  "returned run = (case run of Inl e \<Rightarrow> None | Inr res \<Rightarrow> res)"

section \<open>Example series\<close>

definition candle :: "timestamp \<Rightarrow> real \<Rightarrow> real \<Rightarrow> bar" where
  "candle t opn cls =
     \<lparr>timestamp = t, open_p = opn, high_p = max opn cls, low_p = min opn cls,
      close_p = cls, volume = 1\<rparr>"

definition two_dips :: "bar list" where
  "two_dips = [candle (2023, 1, 1) 100 100, candle (2023, 1, 2) 100 90,
               candle (2023, 1, 3) 90 80, candle (2023, 1, 4) 80 81]"

definition no_dips :: "bar list" where
  "no_dips = [candle (2023, 1, 1) 100 100, candle (2023, 1, 2) 100 99,
              candle (2023, 1, 3) 99 101]"

definition three_months :: "bar list" where
  "three_months = [candle (2023, 1, 3) 95 90, candle (2023, 1, 5) 90 100,
                   candle (2023, 2, 3) 100 110, candle (2023, 2, 6) 110 120,
                   candle (2023, 3, 1) 120 100, candle (2023, 3, 2) 100 80]"

definition february :: "bar list" where
  "february = [candle (2023, 2, 27) 100 101, candle (2023, 2, 28) 101 102]"

definition january :: "bar list" where
  "january = map (\<lambda>d. candle (2023, 1, d) 100 100)
               [1, 2, 3, 4, 5, 6, 7, 8, 9, 10, 11, 12, 13, 14, 15, 16, 17, 18, 19, 20,
                21, 22, 23, 24, 25, 26, 27, 28, 29] @
             [candle (2023, 1, 30) 110 100, candle (2023, 1, 31) 100 110]"

definition april :: "bar list" where
  "april = [candle (2023, 4, 27) 100 101, candle (2023, 4, 28) 101 102]"

definition june :: "bar list" where
  "june = [candle (2023, 6, 29) 100 101, candle (2023, 6, 30) 101 102]"

section \<open>Properties of the dip engine\<close>

lemma dip_loop_snoc:
  "dip_loop ds th s (rows @ [row]) = dip_step ds th (dip_loop ds th s rows) row"
  by (induction rows arbitrary: s) simp_all

lemma dip_step_counters:
  "dip_days s = length (purchases s) + missed_opportunities s \<Longrightarrow>
   dip_days (dip_step ds th s row) =
     length (purchases (dip_step ds th s row)) + missed_opportunities (dip_step ds th s row)"
  by (simp add: dip_step_def Let_def)

lemma dip_loop_counters:
  "dip_days s = length (purchases s) + missed_opportunities s \<Longrightarrow>
   dip_days (dip_loop ds th s rows) =
     length (purchases (dip_loop ds th s rows)) + missed_opportunities (dip_loop ds th s rows)"
  by (induction rows arbitrary: s) (simp_all add: dip_step_counters)

lemma dip_step_dip_days:
  "dip_days (dip_step ds th s row) = dip_days s + (if daily_return row \<le> th then 1 else 0)"
  by (simp add: dip_step_def Let_def)

lemma dip_loop_dip_days:
  "dip_days (dip_loop ds th s rows) =
     dip_days s + length (filter (\<lambda>row. daily_return row \<le> th) rows)"
  by (induction rows arbitrary: s) (simp_all add: dip_step_dip_days)

lemma dip_finish_fields:
  "dip_finish df ds s = Some r \<Longrightarrow>
     r_dip_days r = dip_days s \<and> r_num_purchases r = length (purchases s) \<and>
     r_missed_opportunities r = missed_opportunities s \<and> r_purchases r = purchases s \<and>
     r_total_invested r = total_invested s \<and> r_total_coins r = total_coins s \<and>
     r_accumulated_cash r = accumulated_cash s"
  by (auto simp: dip_finish_def Let_def split: if_splits)

text \<open>
  C10. After the loop of \<open>run_strategy\<close>, on any frame and for any parameters, the
  number of dip days is the number of purchases plus the number of missed opportunities,
  and it is the number of rows whose intrabar return is at or below the threshold; so
  there are at most as many purchases as dip days. The result dict, when the run returns
  one, reports the same counters.
\<close>

theorem dip_counter_identity:
  "(let s = dip_loop (monthly_savings / 30) dip_threshold dip_init df in
      dip_days s = length (purchases s) + missed_opportunities s \<and>
      dip_days s = length (filter (\<lambda>row. daily_return row \<le> dip_threshold) df) \<and>
      length (purchases s) \<le> dip_days s) \<and>
   (\<forall>r. run_strategy df monthly_savings dip_threshold = Inr (Some r) \<longrightarrow>
      r_dip_days r = r_num_purchases r + r_missed_opportunities r \<and>
      r_dip_days r = length (filter (\<lambda>row. daily_return row \<le> dip_threshold) df) \<and>
      r_num_purchases r \<le> r_dip_days r)"
proof -
  let ?s = "dip_loop (monthly_savings / 30) dip_threshold dip_init df"
  have init: "dip_days dip_init = length (purchases dip_init) + missed_opportunities dip_init"
    by (simp add: dip_init_def)
  have a: "dip_days ?s = length (purchases ?s) + missed_opportunities ?s"
    by (rule dip_loop_counters [OF init])
  have b: "dip_days ?s = length (filter (\<lambda>row. daily_return row \<le> dip_threshold) df)"
    by (simp add: dip_loop_dip_days dip_init_def)
  have c: "length (purchases ?s) \<le> dip_days ?s"
    using a by simp
  have d: "r_dip_days r = r_num_purchases r + r_missed_opportunities r \<and>
      r_dip_days r = length (filter (\<lambda>row. daily_return row \<le> dip_threshold) df) \<and>
      r_num_purchases r \<le> r_dip_days r"
    if "run_strategy df monthly_savings dip_threshold = Inr (Some r)" for r
  proof -
    from that have "dip_finish df (monthly_savings / 30) ?s = Some r"
      by (simp add: run_strategy_def Let_def split: if_splits)
    from dip_finish_fields [OF this] a b c show ?thesis by simp
  qed
  show ?thesis unfolding Let_def using a b c d by blast
qed

theorem dip_counter_identity_witness:
  "\<exists>r. run_strategy two_dips 1500 (- 5) = Inr (Some r) \<and>
       r_dip_days r = 2 \<and> r_num_purchases r = 1 \<and> r_missed_opportunities r = 1 \<and>
       r_dip_days r = r_num_purchases r + r_missed_opportunities r"
proof -
  have run: "\<exists>r. run_strategy two_dips 1500 (- 5) = Inr (Some r) \<and>
                  r_dip_days r = 2 \<and> r_num_purchases r = 1"
    by (simp add: run_strategy_def dip_finish_def dip_step_def dip_init_def daily_return_def
        two_dips_def candle_def Let_def)
  then obtain r where r: "run_strategy two_dips 1500 (- 5) = Inr (Some r)"
      "r_dip_days r = 2" "r_num_purchases r = 1"
    by blast
  from dip_counter_identity [of 1500 "- 5" two_dips] r(1)
  have "r_dip_days r = r_num_purchases r + r_missed_opportunities r" by blast
  with r show ?thesis by auto
qed

subsection \<open>Running totals and the purchase log\<close>

lemma py_sum_snoc: "py_sum (xs @ [x]) = py_sum xs + x"
  by (simp add: py_sum_def)

lemma totals_inv_Nil: "totals_inv 0 0 []"
  by (simp add: totals_inv_def py_sum_def)

lemma totals_inv_snoc:
  assumes inv: "totals_inv ti tc ps"
    and p: "p_total_invested p = ti + p_investment p"
           "p_total_coins p = tc + p_coins_bought p"
           "p_avg_price p = p_total_invested p / p_total_coins p"
  shows "totals_inv (ti + p_investment p) (tc + p_coins_bought p) (ps @ [p])"
proof -
  have sums: "ti = py_sum (map p_investment ps)" "tc = py_sum (map p_coins_bought ps)"
    using inv by (simp_all add: totals_inv_def)
  have old: "p_total_invested (ps ! i) = py_sum (map p_investment (take (Suc i) ps)) \<and>
             p_total_coins (ps ! i) = py_sum (map p_coins_bought (take (Suc i) ps)) \<and>
             p_avg_price (ps ! i) = p_total_invested (ps ! i) / p_total_coins (ps ! i)"
    if "i < length ps" for i
    using inv that by (simp add: totals_inv_def)
  have new: "p_total_invested ((ps @ [p]) ! i) =
               py_sum (map p_investment (take (Suc i) (ps @ [p]))) \<and>
             p_total_coins ((ps @ [p]) ! i) =
               py_sum (map p_coins_bought (take (Suc i) (ps @ [p]))) \<and>
             p_avg_price ((ps @ [p]) ! i) =
               p_total_invested ((ps @ [p]) ! i) / p_total_coins ((ps @ [p]) ! i)"
    if i: "i < length (ps @ [p])" for i
  proof (cases "i < length ps")
    case True
    then show ?thesis using old [OF True] by (simp add: nth_append)
  next
    case False
    with i have "i = length ps" by simp
    then show ?thesis using p sums by (simp add: py_sum_snoc)
  qed
  show ?thesis
    unfolding totals_inv_def
    using sums new by (simp add: py_sum_snoc)
qed

lemma dip_step_totals:
  assumes "totals_inv (total_invested s) (total_coins s) (purchases s)"
    and "0 \<le> total_coins s" and "0 < close_p row"
  shows "totals_inv (total_invested (dip_step ds th s row)) (total_coins (dip_step ds th s row))
           (purchases (dip_step ds th s row)) \<and>
         0 \<le> total_coins (dip_step ds th s row)"
proof (cases "daily_return row \<le> th \<and> accumulated_cash s + ds \<ge> 100")
  case False
  then show ?thesis using assms by (auto simp: dip_step_def Let_def)
next
  case True
  let ?cash = "accumulated_cash s + ds"
  let ?c = "?cash / close_p row"
  let ?p = "\<lparr>p_date = timestamp row, p_price = close_p row, p_investment = ?cash,
             p_coins_bought = ?c, p_total_invested = total_invested s + ?cash,
             p_total_coins = total_coins s + ?c,
             p_avg_price = (total_invested s + ?cash) / (total_coins s + ?c),
             p_daily_return = daily_return row\<rparr>"
  have cpos: "0 < ?c" using True assms(3) by simp
  then have tpos: "0 < total_coins s + ?c" using assms(2) by linarith
  have "totals_inv (total_invested s + p_investment ?p) (total_coins s + p_coins_bought ?p)
          (purchases s @ [?p])"
    by (rule totals_inv_snoc [OF assms(1)]) simp_all
  then show ?thesis using True tpos by (simp add: dip_step_def Let_def)
qed

lemma dip_loop_totals:
  assumes "totals_inv (total_invested s) (total_coins s) (purchases s)"
    and "0 \<le> total_coins s" and "list_all (\<lambda>b. 0 < close_p b) rows"
  shows "totals_inv (total_invested (dip_loop ds th s rows)) (total_coins (dip_loop ds th s rows))
           (purchases (dip_loop ds th s rows))"
  using assms
proof (induction rows arbitrary: s)
  case Nil
  then show ?case by simp
next
  case (Cons row rows)
  from Cons.prems have "0 < close_p row" "list_all (\<lambda>b. 0 < close_p b) rows" by simp_all
  with dip_step_totals [OF Cons.prems(1,2), of row ds th] Cons.IH show ?case by simp
qed

lemma dip_step_no_savings:
  "ds \<le> 0 \<Longrightarrow> accumulated_cash s \<le> 0 \<Longrightarrow>
   accumulated_cash (dip_step ds th s row) \<le> 0 \<and> purchases (dip_step ds th s row) = purchases s"
  by (simp add: dip_step_def Let_def)

lemma dip_loop_no_savings:
  "ds \<le> 0 \<Longrightarrow> accumulated_cash s \<le> 0 \<Longrightarrow> purchases (dip_loop ds th s rows) = purchases s"
proof (induction rows arbitrary: s)
  case Nil
  then show ?case by simp
next
  case (Cons row rows)
  from dip_step_no_savings [OF Cons.prems, of th row] Cons.IH [OF Cons.prems(1)]
  show ?case by simp
qed

lemma dip_purchase_needs_savings:
  "purchases (dip_loop ds th dip_init rows) \<noteq> [] \<Longrightarrow> 0 < ds"
proof (rule ccontr)
  assume a: "purchases (dip_loop ds th dip_init rows) \<noteq> []" and "\<not> 0 < ds"
  then have "ds \<le> 0" by simp
  from dip_loop_no_savings [OF this, of dip_init th rows] a show False
    by (simp add: dip_init_def)
qed

lemma dip_step_no_dip:
  "\<not> daily_return row \<le> th \<Longrightarrow> purchases (dip_step ds th s row) = purchases s"
  by (simp add: dip_step_def Let_def)

lemma dip_loop_no_dip:
  "list_all (\<lambda>row. \<not> daily_return row \<le> th) rows \<Longrightarrow>
   purchases (dip_loop ds th s rows) = purchases s"
  by (induction rows arbitrary: s) (simp_all add: dip_step_no_dip)

section \<open>Properties of the scheduled engine\<close>

lemma find_some_member:
  "x \<in> set xs \<Longrightarrow> P x \<Longrightarrow> \<exists>y. find P xs = Some y \<and> P y \<and> y \<in> set xs"
  by (induction xs) auto

lemma resolve_in_dates:
  assumes "resolve_buy_date ds y m d = Inr t" and "ds \<noteq> []"
  shows "t \<in> set ds"
proof -
  from assms(1) obtain target where
    t: "t = (if length (filter (\<lambda>x. x \<ge> target) ds) > 0
             then hd (filter (\<lambda>x. x \<ge> target) ds) else last ds)"
    by (auto simp: resolve_buy_date_def Let_def split: sum.splits)
  show ?thesis
  proof (cases "filter (\<lambda>x. x \<ge> target) ds = []")
    case True
    then show ?thesis using t assms(2) by simp
  next
    case False
    then have "hd (filter (\<lambda>x. x \<ge> target) ds) \<in> set (filter (\<lambda>x. x \<ge> target) ds)"
      by (rule hd_in_set)
    then show ?thesis using t False by auto
  qed
qed

text \<open>What one iteration of the scheduled loop does when it does not raise.\<close>

lemma dca_step_effect:
  assumes step: "dca_step df mi dm s row = Inr s'"
    and row: "row \<in> set (map (\<lambda>b. (year_of (timestamp b), month_of (timestamp b))) df)"
  shows "\<exists>p. purchases s' = purchases s @ [p] \<and>
             total_invested s' = total_invested s + mi \<and>
             total_coins s' = total_coins s + mi / p_price p \<and>
             p_investment p = mi \<and> p_coins_bought p = mi / p_price p \<and>
             p_total_invested p = total_invested s' \<and> p_total_coins p = total_coins s' \<and>
             p_avg_price p = p_total_invested p / p_total_coins p \<and>
             (p_year p, p_month p) = row \<and>
             resolve_buy_date
               (map timestamp (filter (\<lambda>b. year_of (timestamp b) = fst row \<and>
                                             month_of (timestamp b) = snd row) df))
               (fst row) (snd row) dm = Inr (p_date p) \<and>
             (\<exists>b \<in> set df. timestamp b = p_date p \<and> close_p b = p_price p \<and>
                            (year_of (timestamp b), month_of (timestamp b)) = row)"
proof -
  let ?md = "filter (\<lambda>b. year_of (timestamp b) = fst row \<and> month_of (timestamp b) = snd row) df"
  from row have ne: "?md \<noteq> []"
    by (auto simp: filter_empty_conv)
  from step ne obtain buy_date price where
    r: "resolve_buy_date (map timestamp ?md) (fst row) (snd row) dm = Inr buy_date"
    and l: "loc_close df buy_date = Inr price"
    by (auto simp: dca_step_def Let_def split: sum.splits if_splits)
  from l obtain b where b: "find (\<lambda>b. timestamp b = buy_date) df = Some b" "price = close_p b"
    by (auto simp: loc_close_def split: option.splits)
  from b(1) have bt: "timestamp b = buy_date" and bin: "b \<in> set df"
    by (auto simp: find_Some_iff)
  from resolve_in_dates [OF r] ne have "buy_date \<in> set (map timestamp ?md)" by simp
  then have ym: "year_of buy_date = fst row" "month_of buy_date = snd row" by auto
  let ?p = "\<lparr>p_date = buy_date, p_price = price, p_investment = mi,
             p_coins_bought = mi / price, p_total_invested = total_invested s + mi,
             p_total_coins = total_coins s + mi / price,
             p_avg_price = (total_invested s + mi) / (total_coins s + mi / price),
             p_year = fst row, p_month = snd row\<rparr>"
  from step ne r l have s': "s' = s\<lparr>total_coins := total_coins s + mi / price,
      total_invested := total_invested s + mi, purchases := purchases s @ [?p]\<rparr>"
    by (simp add: dca_step_def Let_def)
  have key: "(year_of (timestamp b), month_of (timestamp b)) = row"
    using ym unfolding bt [symmetric] by (cases row) simp
  have ex: "\<exists>b \<in> set df. timestamp b = p_date ?p \<and> close_p b = p_price ?p \<and>
                         (year_of (timestamp b), month_of (timestamp b)) = row"
    using bin bt b(2) key by (intro bexI [of _ b]) simp_all
  have "purchases s' = purchases s @ [?p] \<and>
             total_invested s' = total_invested s + mi \<and>
             total_coins s' = total_coins s + mi / p_price ?p \<and>
             p_investment ?p = mi \<and> p_coins_bought ?p = mi / p_price ?p \<and>
             p_total_invested ?p = total_invested s' \<and> p_total_coins ?p = total_coins s' \<and>
             p_avg_price ?p = p_total_invested ?p / p_total_coins ?p \<and>
             (p_year ?p, p_month ?p) = row \<and>
             resolve_buy_date
               (map timestamp (filter (\<lambda>b. year_of (timestamp b) = fst row \<and>
                                             month_of (timestamp b) = snd row) df))
               (fst row) (snd row) dm = Inr (p_date ?p)"
    using r by (simp add: s')
  with ex show ?thesis by blast
qed


lemma dca_step_totals:
  assumes step: "dca_step df mi dm s row = Inr s'"
    and inv: "totals_inv (total_invested s) (total_coins s) (purchases s)"
  shows "totals_inv (total_invested s') (total_coins s') (purchases s')"
proof (cases "row \<in> set (map (\<lambda>b. (year_of (timestamp b), month_of (timestamp b))) df)")
  case False
  then have "filter (\<lambda>b. year_of (timestamp b) = fst row \<and> month_of (timestamp b) = snd row) df = []"
    by (cases row) (force simp: filter_empty_conv)
  with step have "s' = s" by (simp add: dca_step_def Let_def)
  with inv show ?thesis by simp
next
  case True
  from dca_step_effect [OF step True] obtain p where pp:
    "purchases s' = purchases s @ [p] \<and>
             total_invested s' = total_invested s + mi \<and>
             total_coins s' = total_coins s + mi / p_price p \<and>
             p_investment p = mi \<and> p_coins_bought p = mi / p_price p \<and>
             p_total_invested p = total_invested s' \<and> p_total_coins p = total_coins s' \<and>
             p_avg_price p = p_total_invested p / p_total_coins p \<and>
             (p_year p, p_month p) = row \<and>
             resolve_buy_date
               (map timestamp (filter (\<lambda>b. year_of (timestamp b) = fst row \<and>
                                             month_of (timestamp b) = snd row) df))
               (fst row) (snd row) dm = Inr (p_date p) \<and>
             (\<exists>b \<in> set df. timestamp b = p_date p \<and> close_p b = p_price p \<and>
                            (year_of (timestamp b), month_of (timestamp b)) = row)" ..
  from pp have
    p: "purchases s' = purchases s @ [p]"
       "total_invested s' = total_invested s + mi"
       "total_coins s' = total_coins s + mi / p_price p"
       "p_investment p = mi" "p_coins_bought p = mi / p_price p"
       "p_total_invested p = total_invested s'" "p_total_coins p = total_coins s'"
       "p_avg_price p = p_total_invested p / p_total_coins p"
    by simp_all
  have "totals_inv (total_invested s + p_investment p) (total_coins s + p_coins_bought p)
          (purchases s @ [p])"
    by (rule totals_inv_snoc [OF inv]) (simp_all add: p)
  then show ?thesis by (simp add: p)
qed

lemma dca_loop_totals:
  assumes "dca_loop df mi dm s rows = Inr s'"
    and "totals_inv (total_invested s) (total_coins s) (purchases s)"
  shows "totals_inv (total_invested s') (total_coins s') (purchases s')"
  using assms
proof (induction rows arbitrary: s)
  case Nil
  then show ?case by simp
next
  case (Cons row rows)
  from Cons.prems(1) obtain s1 where
    s1: "dca_step df mi dm s row = Inr s1" "dca_loop df mi dm s1 rows = Inr s'"
    by (auto split: sum.splits)
  from Cons.IH [OF s1(2) dca_step_totals [OF s1(1) Cons.prems(2)]] show ?case .
qed

lemma dca_loop_effect:
  assumes "dca_loop df mi dm s rows = Inr s'"
    and "set rows \<subseteq> set (map (\<lambda>b. (year_of (timestamp b), month_of (timestamp b))) df)"
  shows "\<exists>ps. purchases s' = purchases s @ ps \<and>
              map (\<lambda>p. (p_year p, p_month p)) ps = rows \<and>
              list_all (scheduled_purchase df mi dm) ps \<and>
              total_invested s' = total_invested s + real (length rows) * mi"
  using assms
proof (induction rows arbitrary: s)
  case Nil
  then show ?case by simp
next
  case (Cons row rows)
  from Cons.prems(1) obtain s1 where
    s1: "dca_step df mi dm s row = Inr s1" "dca_loop df mi dm s1 rows = Inr s'"
    by (auto split: sum.splits)
  from Cons.prems(2) have row: "row \<in> set (map (\<lambda>b. (year_of (timestamp b), month_of (timestamp b))) df)"
    and rows: "set rows \<subseteq> set (map (\<lambda>b. (year_of (timestamp b), month_of (timestamp b))) df)"
    by simp_all
  from dca_step_effect [OF s1(1) row] obtain p where pp:
    "purchases s1 = purchases s @ [p] \<and>
             total_invested s1 = total_invested s + mi \<and>
             total_coins s1 = total_coins s + mi / p_price p \<and>
             p_investment p = mi \<and> p_coins_bought p = mi / p_price p \<and>
             p_total_invested p = total_invested s1 \<and> p_total_coins p = total_coins s1 \<and>
             p_avg_price p = p_total_invested p / p_total_coins p \<and>
             (p_year p, p_month p) = row \<and>
             resolve_buy_date
               (map timestamp (filter (\<lambda>b. year_of (timestamp b) = fst row \<and>
                                             month_of (timestamp b) = snd row) df))
               (fst row) (snd row) dm = Inr (p_date p) \<and>
             (\<exists>b \<in> set df. timestamp b = p_date p \<and> close_p b = p_price p \<and>
                            (year_of (timestamp b), month_of (timestamp b)) = row)" ..
  from pp have
    p: "purchases s1 = purchases s @ [p]"
       "total_invested s1 = total_invested s + mi"
       "p_investment p = mi" "p_coins_bought p = mi / p_price p"
       "(p_year p, p_month p) = row"
       "resolve_buy_date
               (map timestamp (filter (\<lambda>b. year_of (timestamp b) = fst row \<and>
                                             month_of (timestamp b) = snd row) df))
               (fst row) (snd row) dm = Inr (p_date p)"
       "\<exists>b \<in> set df. timestamp b = p_date p \<and> close_p b = p_price p \<and>
                            (year_of (timestamp b), month_of (timestamp b)) = row"
    by simp_all
  from p(5) have fs: "fst row = p_year p" "snd row = p_month p" by auto
  from p(7) obtain b where b0: "b \<in> set df" and b1: "timestamp b = p_date p \<and> close_p b = p_price p \<and>
      (year_of (timestamp b), month_of (timestamp b)) = row" ..
  from b0 b1 have b: "b \<in> set df" "timestamp b = p_date p" "close_p b = p_price p"
      "(year_of (timestamp b), month_of (timestamp b)) = row"
    by (simp, intro conjunct1 [OF b1], intro conjunct1 [OF conjunct2 [OF b1]],
        intro conjunct2 [OF conjunct2 [OF b1]])
  from b(4) fs have bym: "year_of (timestamp b) = p_year p" "month_of (timestamp b) = p_month p"
    by auto
  have ex: "\<exists>b \<in> set df. timestamp b = p_date p \<and> close_p b = p_price p \<and>
                     year_of (timestamp b) = p_year p \<and> month_of (timestamp b) = p_month p"
    by (rule bexI [OF _ b(1)]) (intro conjI b(2) b(3) bym)
  have ok: "scheduled_purchase df mi dm p"
    unfolding scheduled_purchase_def
    using p(3,4) p(6) [unfolded fs] ex by simp
  from Cons.IH [OF s1(2) rows] obtain ps where pps:
    "purchases s' = purchases s1 @ ps \<and>
     map (\<lambda>p. (p_year p, p_month p)) ps = rows \<and>
     list_all (scheduled_purchase df mi dm) ps \<and>
     total_invested s' = total_invested s1 + real (length rows) * mi" ..
  from pps have
    ps: "purchases s' = purchases s1 @ ps"
        "map (\<lambda>p. (p_year p, p_month p)) ps = rows"
        "list_all (scheduled_purchase df mi dm) ps"
        "total_invested s' = total_invested s1 + real (length rows) * mi"
    by simp_all
  have a: "purchases s' = purchases s @ (p # ps)"
    using p(1) ps(1) by simp
  have b: "map (\<lambda>p. (p_year p, p_month p)) (p # ps) = row # rows"
    using p(5) ps(2) by simp
  have c: "list_all (scheduled_purchase df mi dm) (p # ps)"
    using ok ps(3) by simp
  have "real (length (row # rows)) * mi = mi + real (length rows) * mi"
    by (simp add: distrib_right)
  then have d: "total_invested s' = total_invested s + real (length (row # rows)) * mi"
    using p(2) ps(4) by simp
  from a b c d have "purchases s' = purchases s @ (p # ps) \<and>
        map (\<lambda>p. (p_year p, p_month p)) (p # ps) = row # rows \<and>
        list_all (scheduled_purchase df mi dm) (p # ps) \<and>
        total_invested s' = total_invested s + real (length (row # rows)) * mi"
    by (intro conjI)
  then show ?case by (rule exI)
qed

lemma unique_months_set:
  "set (unique_months df) = set (map (\<lambda>b. (year_of (timestamp b), month_of (timestamp b))) df)"
  by (simp add: unique_months_def)

lemma unique_months_strict: "sorted_wrt (<) (unique_months df)"
proof -
  have "sorted (unique_months df)" "distinct (unique_months df)"
    by (simp_all add: unique_months_def)
  then show ?thesis by (simp add: strict_sorted_iff)
qed

lemma unique_months_nonempty: "df \<noteq> [] \<Longrightarrow> unique_months df \<noteq> []"
proof -
  assume "df \<noteq> []"
  then have "set (unique_months df) \<noteq> {}" by (simp add: unique_months_set)
  then show ?thesis by auto
qed

lemma py_sum_sum_list: "py_sum xs = sum_list xs"
  by (induction xs rule: rev_induct) (simp_all add: py_sum_def)

lemma prefix_sum_mono:
  assumes "\<forall>x \<in> set xs. (0::real) \<le> x" and "i \<le> j"
  shows "py_sum (take i xs) \<le> py_sum (take j xs)"
proof -
  have "take j xs = take i xs @ drop i (take j xs)"
    using assms(2) by (metis append_take_drop_id min.absorb1 take_take)
  then have "sum_list (take j xs) = sum_list (take i xs) + sum_list (drop i (take j xs))"
    by (metis sum_list_append)
  moreover have "0 \<le> sum_list (drop i (take j xs))"
    using assms(1) by (intro sum_list_nonneg) (auto dest!: in_set_dropD in_set_takeD)
  ultimately show ?thesis by (simp add: py_sum_sum_list)
qed

lemma month_before_date_before:
  fixes t1 t2 :: timestamp
  assumes "(year_of t1, month_of t1) < (year_of t2, month_of t2)"
  shows "t1 < t2"
  using assms
  by (cases t1, cases t2) (auto simp: year_of_def month_of_def less_prod_def)

lemma Timestamp_ok:
  assumes "1 \<le> m" "m \<le> 12" "1 \<le> d" "d \<le> 28"
  shows "Timestamp y m d = Inr (y, m, nat d)"
  using assms by (simp add: Timestamp_def days_in_month_def)

lemma dca_step_completes:
  assumes row: "row \<in> set (map (\<lambda>b. (year_of (timestamp b), month_of (timestamp b))) df)"
    and valid: "valid_dates df" and dm: "1 \<le> dm" "dm \<le> 28"
  shows "\<exists>s'. dca_step df mi dm s row = Inr s'"
proof -
  let ?md = "filter (\<lambda>b. year_of (timestamp b) = fst row \<and> month_of (timestamp b) = snd row) df"
  from row obtain b where b: "b \<in> set df" "year_of (timestamp b) = fst row"
      "month_of (timestamp b) = snd row"
    by auto
  then have ne: "?md \<noteq> []" by (auto simp: filter_empty_conv)
  from valid b(1) have "Timestamp (year_of (timestamp b)) (month_of (timestamp b))
                          (int (day_of (timestamp b))) = Inr (timestamp b)"
    by (simp add: valid_dates_def list_all_iff)
  then have "1 \<le> month_of (timestamp b) \<and> month_of (timestamp b) \<le> 12"
    by (simp add: Timestamp_def split: if_splits)
  then have m: "1 \<le> snd row" "snd row \<le> 12" using b(3) by simp_all
  have ts: "Timestamp (fst row) (snd row) dm = Inr (fst row, snd row, nat dm)"
    by (rule Timestamp_ok [OF m dm])
  then obtain buy_date where
    r: "resolve_buy_date (map timestamp ?md) (fst row) (snd row) dm = Inr buy_date"
    by (simp add: resolve_buy_date_def Let_def)
  from resolve_in_dates [OF r] ne have "buy_date \<in> set (map timestamp ?md)" by simp
  then obtain c where c: "c \<in> set df" "timestamp c = buy_date" by auto
  from find_some_member [of c df "\<lambda>b. timestamp b = buy_date"] c
  obtain y where "find (\<lambda>b. timestamp b = buy_date) df = Some y" by auto
  then obtain price where l: "loc_close df buy_date = Inr price"
    by (simp add: loc_close_def)
  show ?thesis using ne r l by (simp add: dca_step_def Let_def)
qed

lemma dca_loop_completes:
  assumes "set rows \<subseteq> set (map (\<lambda>b. (year_of (timestamp b), month_of (timestamp b))) df)"
    and "valid_dates df" and "1 \<le> dm" "dm \<le> 28"
  shows "\<exists>s'. dca_loop df mi dm s rows = Inr s'"
  using assms(1)
proof (induction rows arbitrary: s)
  case Nil
  then show ?case by simp
next
  case (Cons row rows)
  then have row: "row \<in> set (map (\<lambda>b. (year_of (timestamp b), month_of (timestamp b))) df)"
    and rows: "set rows \<subseteq> set (map (\<lambda>b. (year_of (timestamp b), month_of (timestamp b))) df)"
    by simp_all
  from dca_step_completes [OF row assms(2,3,4)] obtain s1 where
    s1: "dca_step df mi dm s row = Inr s1" ..
  from Cons.IH [OF rows, of s1] obtain s' where "dca_loop df mi dm s1 rows = Inr s'" ..
  with s1 show ?case by simp
qed

section \<open>Results of a run\<close>

lemma dca_finish_fields:
  "dca_finish df s = Some r \<Longrightarrow>
     r_num_purchases r = length (purchases s) \<and> r_purchases r = purchases s \<and>
     r_total_invested r = total_invested s \<and> r_total_coins r = total_coins s \<and>
     r_current_price r = close_p (last df) \<and>
     r_current_value r = total_coins s * close_p (last df) \<and>
     r_total_return r = total_coins s * close_p (last df) - total_invested s \<and>
     r_return_pct r = (if total_invested s > 0
        then ((total_coins s * close_p (last df) - total_invested s) / total_invested s) * 100
        else 0)"
  by (auto simp: dca_finish_def Let_def split: if_splits)

lemma run_dca_SomeD:
  assumes "run_dca df mi dm = Inr (Some r)"
  shows "\<exists>s. dca_loop df mi dm dca_init (unique_months df) = Inr s \<and> dca_finish df s = Some r"
  using assms by (auto simp: run_dca_def split: if_splits sum.splits)

lemma run_strategy_SomeD:
  assumes "run_strategy df ms th = Inr (Some r)"
  shows "df \<noteq> [] \<and> dip_finish df (ms / 30) (dip_loop (ms / 30) th dip_init df) = Some r"
  using assms by (auto simp: run_strategy_def Let_def split: if_splits)

lemma positive_prices_close:
  "positive_prices df \<Longrightarrow> list_all (\<lambda>b. 0 < close_p b) df"
  by (simp add: positive_prices_def list_all_iff)

text \<open>
  C1. Conservation. On a frame with positive prices, whenever either engine returns a
  result: the \<open>investment\<close> entries of the purchase log sum to the reported
  \<open>total_invested\<close>, the \<open>coins_bought\<close> entries sum to the reported \<open>total_coins\<close>,
  and every entry records the sums of the log up to and including itself as its running
  totals and their quotient as its running average price. The sums are Python's \<open>sum\<close>,
  a left fold, which adds in the order in which the loop accumulated.
\<close>

theorem conservation:
  assumes "positive_prices df"
  shows "(\<forall>r. run_strategy df monthly_savings dip_threshold = Inr (Some r) \<longrightarrow>
            py_sum (map p_investment (r_purchases r)) = r_total_invested r \<and>
            py_sum (map p_coins_bought (r_purchases r)) = r_total_coins r \<and>
            (\<forall>i < length (r_purchases r).
               p_total_invested (r_purchases r ! i) =
                 py_sum (map p_investment (take (Suc i) (r_purchases r))) \<and>
               p_total_coins (r_purchases r ! i) =
                 py_sum (map p_coins_bought (take (Suc i) (r_purchases r))) \<and>
               p_avg_price (r_purchases r ! i) =
                 p_total_invested (r_purchases r ! i) / p_total_coins (r_purchases r ! i))) \<and>
         (\<forall>r. run_dca df monthly_investment day_of_month = Inr (Some r) \<longrightarrow>
            py_sum (map p_investment (r_purchases r)) = r_total_invested r \<and>
            py_sum (map p_coins_bought (r_purchases r)) = r_total_coins r \<and>
            (\<forall>i < length (r_purchases r).
               p_total_invested (r_purchases r ! i) =
                 py_sum (map p_investment (take (Suc i) (r_purchases r))) \<and>
               p_total_coins (r_purchases r ! i) =
                 py_sum (map p_coins_bought (take (Suc i) (r_purchases r))) \<and>
               p_avg_price (r_purchases r ! i) =
                 p_total_invested (r_purchases r ! i) / p_total_coins (r_purchases r ! i)))"
proof (intro conjI allI impI)
  fix r
  assume run: "run_strategy df monthly_savings dip_threshold = Inr (Some r)"
  let ?s = "dip_loop (monthly_savings / 30) dip_threshold dip_init df"
  from run_strategy_SomeD [OF run] have fin: "dip_finish df (monthly_savings / 30) ?s = Some r"
    by simp
  have "totals_inv (total_invested dip_init) (total_coins dip_init) (purchases dip_init)"
    by (simp add: dip_init_def totals_inv_Nil)
  moreover have "0 \<le> total_coins dip_init" by (simp add: dip_init_def)
  ultimately have "totals_inv (total_invested ?s) (total_coins ?s) (purchases ?s)"
    using positive_prices_close [OF assms] by (rule dip_loop_totals)
  then have inv: "totals_inv (r_total_invested r) (r_total_coins r) (r_purchases r)"
    using dip_finish_fields [OF fin] by simp
  show "py_sum (map p_investment (r_purchases r)) = r_total_invested r"
    using inv by (simp add: totals_inv_def)
  show "py_sum (map p_coins_bought (r_purchases r)) = r_total_coins r"
    using inv by (simp add: totals_inv_def)
  fix i assume "i < length (r_purchases r)"
  with inv show "p_total_invested (r_purchases r ! i) =
                 py_sum (map p_investment (take (Suc i) (r_purchases r)))"
    and "p_total_coins (r_purchases r ! i) =
                 py_sum (map p_coins_bought (take (Suc i) (r_purchases r)))"
    and "p_avg_price (r_purchases r ! i) =
                 p_total_invested (r_purchases r ! i) / p_total_coins (r_purchases r ! i)"
    by (simp_all add: totals_inv_def)
next
  fix r
  assume run: "run_dca df monthly_investment day_of_month = Inr (Some r)"
  from run_dca_SomeD [OF run] obtain s where
    s: "dca_loop df monthly_investment day_of_month dca_init (unique_months df) = Inr s \<and>
        dca_finish df s = Some r" ..
  have "totals_inv (total_invested dca_init) (total_coins dca_init) (purchases dca_init)"
    by (simp add: dca_init_def totals_inv_Nil)
  then have "totals_inv (total_invested s) (total_coins s) (purchases s)"
    by (rule dca_loop_totals [OF conjunct1 [OF s]])
  then have inv: "totals_inv (r_total_invested r) (r_total_coins r) (r_purchases r)"
    using dca_finish_fields [of df s r] s by simp
  show "py_sum (map p_investment (r_purchases r)) = r_total_invested r"
    using inv by (simp add: totals_inv_def)
  show "py_sum (map p_coins_bought (r_purchases r)) = r_total_coins r"
    using inv by (simp add: totals_inv_def)
  fix i assume "i < length (r_purchases r)"
  with inv show "p_total_invested (r_purchases r ! i) =
                 py_sum (map p_investment (take (Suc i) (r_purchases r)))"
    and "p_total_coins (r_purchases r ! i) =
                 py_sum (map p_coins_bought (take (Suc i) (r_purchases r)))"
    and "p_avg_price (r_purchases r ! i) =
                 p_total_invested (r_purchases r ! i) / p_total_coins (r_purchases r ! i)"
    by (simp_all add: totals_inv_def)
qed

theorem conservation_witness:
  "positive_prices three_months \<and>
   (\<exists>r. run_strategy three_months 1500 (- 5) = Inr (Some r) \<and> r_total_invested r = 250 \<and>
        py_sum (map p_investment (r_purchases r)) = r_total_invested r \<and>
        py_sum (map p_coins_bought (r_purchases r)) = r_total_coins r) \<and>
   (\<exists>r. run_dca three_months 1000 5 = Inr (Some r) \<and> r_total_invested r = 3000 \<and>
        py_sum (map p_investment (r_purchases r)) = r_total_invested r \<and>
        py_sum (map p_coins_bought (r_purchases r)) = r_total_coins r)"
proof -
  have pp: "positive_prices three_months"
    by (simp add: positive_prices_def three_months_def candle_def)
  have "\<exists>r. run_strategy three_months 1500 (- 5) = Inr (Some r) \<and> r_total_invested r = 250"
    by (simp add: run_strategy_def dip_finish_def dip_step_def dip_init_def daily_return_def
        three_months_def candle_def Let_def)
  then obtain r1 where r1: "run_strategy three_months 1500 (- 5) = Inr (Some r1) \<and>
      r_total_invested r1 = 250" ..
  have um: "unique_months three_months = [(2023, 1), (2023, 2), (2023, 3)]"
    by code_simp
  have "\<exists>r. run_dca three_months 1000 5 = Inr (Some r) \<and> r_total_invested r = 3000"
    unfolding run_dca_def um
    by (simp add: dca_step_def dca_finish_def dca_init_def resolve_buy_date_def
        Timestamp_def days_in_month_def loc_close_def three_months_def candle_def
        year_of_def month_of_def Let_def less_eq_prod_def less_prod_def)
  then obtain r2 where r2: "run_dca three_months 1000 5 = Inr (Some r2) \<and>
      r_total_invested r2 = 3000" ..
  note c = conservation [OF pp, of 1500 "- 5" 1000 5]
  from c r1 have a: "py_sum (map p_investment (r_purchases r1)) = r_total_invested r1 \<and>
      py_sum (map p_coins_bought (r_purchases r1)) = r_total_coins r1"
    by simp
  from c r2 have b: "py_sum (map p_investment (r_purchases r2)) = r_total_invested r2 \<and>
      py_sum (map p_coins_bought (r_purchases r2)) = r_total_coins r2"
    by simp
  have e1: "\<exists>r. run_strategy three_months 1500 (- 5) = Inr (Some r) \<and> r_total_invested r = 250 \<and>
        py_sum (map p_investment (r_purchases r)) = r_total_invested r \<and>
        py_sum (map p_coins_bought (r_purchases r)) = r_total_coins r"
    using r1 a by (intro exI [of _ r1]) simp
  have e2: "\<exists>r. run_dca three_months 1000 5 = Inr (Some r) \<and> r_total_invested r = 3000 \<and>
        py_sum (map p_investment (r_purchases r)) = r_total_invested r \<and>
        py_sum (map p_coins_bought (r_purchases r)) = r_total_coins r"
    using r2 b by (intro exI [of _ r2]) simp
  from pp e1 e2 show ?thesis by (intro conjI)
qed

text \<open>
  C3, at a day of the month that the month does not have. February 2023 has the trading
  dates 27 and 28; with \<open>day_of_month = 31\<close> the target date cannot be built, so the
  resolution, and with it the whole run, raises ValueError instead of falling back to the
  last available date, the 28th.
\<close>

theorem scheduler_rejects_absent_day:
  "resolve_buy_date (map timestamp february) 2023 2 31 = Inl ValueError \<and>
   run_dca february 10000 31 = Inl ValueError \<and>
   last (map timestamp february) = (2023, 2, 28)"
  by code_simp

lemma dip_finish_None: "purchases s = [] \<Longrightarrow> dip_finish df ds s = None"
  by (simp add: dip_finish_def)

lemma dca_loop_length:
  assumes "dca_loop df mi dm dca_init (unique_months df) = Inr s"
  shows "length (purchases s) = length (unique_months df) \<and>
         map (\<lambda>p. (p_year p, p_month p)) (purchases s) = unique_months df \<and>
         list_all (scheduled_purchase df mi dm) (purchases s) \<and>
         total_invested s = real (length (unique_months df)) * mi"
proof -
  have sub: "set (unique_months df) \<subseteq>
      set (map (\<lambda>b. (year_of (timestamp b), month_of (timestamp b))) df)"
    by (simp add: unique_months_set)
  from dca_loop_effect [OF assms sub] obtain ps where ps:
    "purchases s = purchases dca_init @ ps \<and>
     map (\<lambda>p. (p_year p, p_month p)) ps = unique_months df \<and>
     list_all (scheduled_purchase df mi dm) ps \<and>
     total_invested s = total_invested dca_init + real (length (unique_months df)) * mi" ..
  then have eq: "purchases s = ps" by (simp add: dca_init_def)
  from ps have "length (map (\<lambda>p. (p_year p, p_month p)) ps) = length (unique_months df)"
    by simp
  then have len: "length ps = length (unique_months df)" by simp
  from ps eq len show ?thesis by (simp add: dca_init_def)
qed

text \<open>
  On a non-empty frame \<open>run_strategy\<close> never raises, and it returns None whenever the
  loop made no purchase; in particular when no row has an intrabar return at or below the
  threshold.
\<close>

lemma run_strategy_empty_result:
  assumes "df \<noteq> []"
  shows "(\<exists>res. run_strategy df monthly_savings dip_threshold = Inr res) \<and>
         (purchases (dip_loop (monthly_savings / 30) dip_threshold dip_init df) = [] \<longrightarrow>
            run_strategy df monthly_savings dip_threshold = Inr None) \<and>
         (list_all (\<lambda>row. \<not> daily_return row \<le> dip_threshold) df \<longrightarrow>
            run_strategy df monthly_savings dip_threshold = Inr None)"
proof (intro conjI impI)
  show "\<exists>res. run_strategy df monthly_savings dip_threshold = Inr res"
    using assms by (simp add: run_strategy_def Let_def)
  show "run_strategy df monthly_savings dip_threshold = Inr None"
    if "purchases (dip_loop (monthly_savings / 30) dip_threshold dip_init df) = []"
    using assms that by (simp add: run_strategy_def Let_def dip_finish_None)
  show "run_strategy df monthly_savings dip_threshold = Inr None"
    if "list_all (\<lambda>row. \<not> daily_return row \<le> dip_threshold) df"
  proof -
    from dip_loop_no_dip [OF that, of "monthly_savings / 30" dip_init]
    have "purchases (dip_loop (monthly_savings / 30) dip_threshold dip_init df) = []"
      by (simp add: dip_init_def)
    then show ?thesis using assms by (simp add: run_strategy_def Let_def dip_finish_None)
  qed
qed

text \<open>
  C6, at a run of \<open>run_dca\<close> that makes no purchase. June 2023 has the trading dates 29
  and 30; with \<open>day_of_month = 31\<close> the first iteration of the loop raises ValueError
  when it builds the target date, so the run ends with an exception and an empty purchase
  log instead of returning None.
\<close>

theorem zero_purchase_run_raises:
  "unique_months june = [(2023, 6)] \<and>
   dca_step june 10000 31 dca_init (2023, 6) = Inl ValueError \<and>
   run_dca june 10000 31 = Inl ValueError"
  by code_simp

lemma dip_finish_return:
  assumes "dip_finish df ds s = Some r"
  shows "r_total_should_save r = real (length df) * ds \<and>
         r_total_days r = length df \<and>
         r_current_value r = total_coins s * close_p (last df) \<and>
         r_current_value_with_cash r = total_coins s * close_p (last df) + accumulated_cash s \<and>
         r_total_return r = r_current_value_with_cash r - r_total_should_save r \<and>
         r_return_pct r = (if r_total_should_save r > 0
            then (r_total_return r / r_total_should_save r) * 100 else 0)"
  using assms by (auto simp: dip_finish_def Let_def split: if_splits)

lemma run_dca_totals:
  assumes "run_dca df mi dm = Inr (Some r)"
  shows "totals_inv (r_total_invested r) (r_total_coins r) (r_purchases r)"
proof -
  from run_dca_SomeD [OF assms] obtain s where
    s: "dca_loop df mi dm dca_init (unique_months df) = Inr s \<and> dca_finish df s = Some r" ..
  have "totals_inv (total_invested dca_init) (total_coins dca_init) (purchases dca_init)"
    by (simp add: dca_init_def totals_inv_Nil)
  then have "totals_inv (total_invested s) (total_coins s) (purchases s)"
    by (rule dca_loop_totals [OF conjunct1 [OF s]])
  then show ?thesis using dca_finish_fields [OF conjunct2 [OF s]] by simp
qed

text \<open>
  C5, as the code has it. \<open>run_strategy\<close> measures its return against what should
  have been saved: \<open>total_should_save\<close> is the number of rows times
  \<open>monthly_savings / 30\<close>, it is positive whenever a result is returned, the total
  return is the value of the coins plus the cash left, minus \<open>total_should_save\<close>, and
  \<open>return_pct\<close> is that return over \<open>total_should_save\<close>, times 100. \<open>run_dca\<close>
  measures its return against the cash it spent: the total return is the value of the
  coins minus \<open>total_invested\<close>, the sum of the purchases, and \<open>return_pct\<close> is that
  return over \<open>total_invested\<close>, times 100 (0 when \<open>total_invested\<close> is not positive).
\<close>

theorem return_denominator:
  "(\<forall>r. run_strategy df monthly_savings dip_threshold = Inr (Some r) \<longrightarrow>
      r_total_should_save r = real (length df) * (monthly_savings / 30) \<and>
      0 < r_total_should_save r \<and>
      r_current_value_with_cash r = r_current_value r + r_accumulated_cash r \<and>
      r_total_return r = r_current_value_with_cash r - r_total_should_save r \<and>
      r_return_pct r =
        (r_current_value_with_cash r - r_total_should_save r) / r_total_should_save r * 100) \<and>
   (\<forall>r. run_dca df monthly_investment day_of_month = Inr (Some r) \<longrightarrow>
      r_total_invested r = py_sum (map p_investment (r_purchases r)) \<and>
      r_total_return r = r_current_value r - r_total_invested r \<and>
      r_return_pct r =
        (if r_total_invested r > 0
         then (r_current_value r - r_total_invested r) / r_total_invested r * 100 else 0) \<and>
      (0 < monthly_investment \<longrightarrow>
         r_return_pct r =
           (r_current_value r - r_total_invested r) / r_total_invested r * 100))"
proof (intro conjI allI impI)
  fix r
  assume run: "run_strategy df monthly_savings dip_threshold = Inr (Some r)"
  let ?s = "dip_loop (monthly_savings / 30) dip_threshold dip_init df"
  from run_strategy_SomeD [OF run] have ne: "df \<noteq> []"
    and fin: "dip_finish df (monthly_savings / 30) ?s = Some r"
    by simp_all
  note ret = dip_finish_return [OF fin]
  note fld = dip_finish_fields [OF fin]
  from fin have "purchases ?s \<noteq> []"
    by (auto simp: dip_finish_def split: if_splits)
  then have ds: "0 < monthly_savings / 30" by (rule dip_purchase_needs_savings)
  from ne have "0 < real (length df)" by simp
  then have pos: "0 < real (length df) * (monthly_savings / 30)"
    using ds by (rule mult_pos_pos)
  show tss: "r_total_should_save r = real (length df) * (monthly_savings / 30)"
    using ret by simp
  show tpos: "0 < r_total_should_save r" using pos tss by simp
  show "r_current_value_with_cash r = r_current_value r + r_accumulated_cash r"
    using ret fld by simp
  show tr: "r_total_return r = r_current_value_with_cash r - r_total_should_save r"
    using ret by simp
  show "r_return_pct r =
        (r_current_value_with_cash r - r_total_should_save r) / r_total_should_save r * 100"
    using ret tpos by simp
next
  fix r
  assume run: "run_dca df monthly_investment day_of_month = Inr (Some r)"
  from run_dca_SomeD [OF run] obtain s where
    s: "dca_loop df monthly_investment day_of_month dca_init (unique_months df) = Inr s \<and>
        dca_finish df s = Some r" ..
  note fld = dca_finish_fields [OF conjunct2 [OF s]]
  show "r_total_invested r = py_sum (map p_investment (r_purchases r))"
    using run_dca_totals [OF run] by (simp add: totals_inv_def)
  show "r_total_return r = r_current_value r - r_total_invested r"
    using fld by simp
  show rp: "r_return_pct r =
        (if r_total_invested r > 0
         then (r_current_value r - r_total_invested r) / r_total_invested r * 100 else 0)"
    using fld by simp
  show "r_return_pct r = (r_current_value r - r_total_invested r) / r_total_invested r * 100"
    if mi: "0 < monthly_investment"
  proof -
    from run have "df \<noteq> []" by (auto simp: run_dca_def split: if_splits)
    then have "unique_months df \<noteq> []" by (rule unique_months_nonempty)
    then have "0 < real (length (unique_months df))" by simp
    then have "0 < real (length (unique_months df)) * monthly_investment"
      using mi by (rule mult_pos_pos)
    with dca_loop_length [OF conjunct1 [OF s]] fld have "0 < r_total_invested r" by simp
    with rp show ?thesis by simp
  qed
qed

text \<open>
  C5 as stated fails for \<open>run_dca\<close>. On four rows of January 2023 with 1500 a month,
  the scheduled engine spends 1500, holds coins worth 1500 and reports a return of 0
  percent, while 200 should have been saved over the four days by the dip engine's
  reckoning, against which the return would be 650 percent.
\<close>

theorem dca_return_against_invested:
  "map_option r_return_pct (returned (run_dca two_dips 1500 5)) = Some 0 \<and>
   map_option r_current_value (returned (run_dca two_dips 1500 5)) = Some 1500 \<and>
   map_option r_total_invested (returned (run_dca two_dips 1500 5)) = Some 1500 \<and>
   map_option r_total_should_save (returned (run_strategy two_dips 1500 (- 5))) = Some 200 \<and>
   (1500 - 200) / 200 * 100 \<noteq> (0::real)"
  by code_simp

theorem return_denominator_witness:
  "(\<exists>r. run_strategy three_months 1500 (- 5) = Inr (Some r) \<and>
        r_total_should_save r = 300 \<and> r_current_value_with_cash r = 250 \<and>
        r_return_pct r = (250 - 300) / 300 * 100) \<and>
   (\<exists>r. run_dca three_months 1000 5 = Inr (Some r) \<and>
        r_total_invested r = 3000 \<and> r_current_value r = 7400 / 3 \<and>
        r_return_pct r = (7400 / 3 - 3000) / 3000 * 100)"
proof -
  have "\<exists>r. run_strategy three_months 1500 (- 5) = Inr (Some r) \<and>
             r_current_value_with_cash r = 250"
    by (simp add: run_strategy_def dip_finish_def dip_step_def dip_init_def daily_return_def
        three_months_def candle_def Let_def)
  then obtain r1 where r1: "run_strategy three_months 1500 (- 5) = Inr (Some r1) \<and>
      r_current_value_with_cash r1 = 250" ..
  have um: "unique_months three_months = [(2023, 1), (2023, 2), (2023, 3)]"
    by code_simp
  have "\<exists>r. run_dca three_months 1000 5 = Inr (Some r) \<and> r_total_invested r = 3000 \<and>
            r_current_value r = 7400 / 3"
    unfolding run_dca_def um
    by (simp add: dca_step_def dca_finish_def dca_init_def resolve_buy_date_def
        Timestamp_def days_in_month_def loc_close_def three_months_def candle_def
        year_of_def month_of_def Let_def less_eq_prod_def less_prod_def)
  then obtain r2 where r2: "run_dca three_months 1000 5 = Inr (Some r2) \<and>
      r_total_invested r2 = 3000 \<and> r_current_value r2 = 7400 / 3" ..
  note c = return_denominator [of three_months 1500 "- 5" 1000 5]
  have len: "real (length three_months) * (1500 / 30) = 300"
    by (simp add: three_months_def)
  from c r1 have a: "r_total_should_save r1 = 300 \<and>
      r_return_pct r1 = (250 - 300) / 300 * 100"
    using len by simp
  from c r2 have b: "r_return_pct r2 = (7400 / 3 - 3000) / 3000 * 100"
    by simp
  have e1: "\<exists>r. run_strategy three_months 1500 (- 5) = Inr (Some r) \<and>
        r_total_should_save r = 300 \<and> r_current_value_with_cash r = 250 \<and>
        r_return_pct r = (250 - 300) / 300 * 100"
    using r1 a by (intro exI [of _ r1]) simp
  have e2: "\<exists>r. run_dca three_months 1000 5 = Inr (Some r) \<and>
        r_total_invested r = 3000 \<and> r_current_value r = 7400 / 3 \<and>
        r_return_pct r = (7400 / 3 - 3000) / 3000 * 100"
    using r2 b by (intro exI [of _ r2]) simp
  from e1 e2 show ?thesis by (intro conjI)
qed

subsection \<open>The resolved buy date\<close>

lemma Timestamp_InrD:
  "Timestamp y m d = Inr t \<Longrightarrow> t = (y, m, nat d)"
  by (simp add: Timestamp_def split: if_splits)

lemma sorted_hd_least:
  fixes xs :: "'a::linorder list"
  assumes "sorted xs" "x \<in> set xs"
  shows "hd xs \<le> x"
  using assms by (cases xs) auto

lemma sorted_last_greatest:
  fixes xs :: "'a::linorder list"
  assumes "sorted xs" "x \<in> set xs"
  shows "x \<le> last xs"
  using assms by (induction xs) (auto split: if_splits)

lemma resolve_buy_date_earliest:
  assumes ts: "Timestamp y m d = Inr target" and srt: "sorted ds" and ne: "ds \<noteq> []"
  shows "\<exists>t. resolve_buy_date ds y m d = Inr t \<and> t \<in> set ds \<and>
             ((\<exists>x \<in> set ds. target \<le> x) \<longrightarrow>
                target \<le> t \<and> (\<forall>x \<in> set ds. target \<le> x \<longrightarrow> t \<le> x)) \<and>
             ((\<forall>x \<in> set ds. x < target) \<longrightarrow> t = last ds \<and> (\<forall>x \<in> set ds. x \<le> t))"
proof (cases "filter (\<lambda>x. x \<ge> target) ds = []")
  case True
  then have r: "resolve_buy_date ds y m d = Inr (last ds)"
    using ts by (simp add: resolve_buy_date_def Let_def)
  from True have none: "\<forall>x \<in> set ds. \<not> target \<le> x"
    by (simp add: filter_empty_conv)
  have "last ds \<in> set ds" using ne by simp
  moreover have "\<forall>x \<in> set ds. x \<le> last ds"
    using srt by (auto intro: sorted_last_greatest)
  ultimately show ?thesis using r none by auto
next
  case False
  let ?ms = "filter (\<lambda>x. x \<ge> target) ds"
  from False have r: "resolve_buy_date ds y m d = Inr (hd ?ms)"
    using ts by (simp add: resolve_buy_date_def Let_def)
  have hm: "hd ?ms \<in> set ?ms" using False by (rule hd_in_set)
  then have a: "hd ?ms \<in> set ds" and b: "target \<le> hd ?ms" by auto
  have sm: "sorted ?ms" using srt by (rule sorted_wrt_filter)
  have c: "\<forall>x \<in> set ds. target \<le> x \<longrightarrow> hd ?ms \<le> x"
  proof (intro ballI impI)
    fix x assume "x \<in> set ds" "target \<le> x"
    then have "x \<in> set ?ms" by simp
    with sm show "hd ?ms \<le> x" by (rule sorted_hd_least)
  qed
  have d: "\<not> (\<forall>x \<in> set ds. x < target)"
    using a b by (auto simp: not_less)
  show ?thesis using r a b c d by auto
qed

lemma month_dates_sorted:
  assumes "ascending df"
  shows "sorted (map timestamp (filter (\<lambda>b. year_of (timestamp b) = y \<and>
                                              month_of (timestamp b) = m) df))"
proof -
  have "map timestamp (filter (\<lambda>b. year_of (timestamp b) = y \<and> month_of (timestamp b) = m) df) =
        filter (\<lambda>t. year_of t = y \<and> month_of t = m) (map timestamp df)"
    by (simp add: filter_map comp_def)
  moreover have "sorted (map timestamp df)"
    using assms by (simp add: ascending_def strict_sorted_iff)
  ultimately show ?thesis by (simp add: sorted_wrt_filter)
qed

lemma label_unique:
  assumes "ascending df" "b \<in> set df" "c \<in> set df" "timestamp b = timestamp c"
  shows "b = c"
proof -
  have "distinct (map timestamp df)"
    using assms(1) by (simp add: ascending_def strict_sorted_iff)
  then have "inj_on timestamp (set df)" by (simp add: distinct_map)
  then show ?thesis using assms(4,2,3) by (rule inj_onD)
qed

lemma scheduled_purchase_date:
  assumes asc: "ascending df" and sp: "scheduled_purchase df mi dm p"
  shows "year_of (p_date p) = p_year p \<and> month_of (p_date p) = p_month p \<and>
         p_date p \<in> timestamp ` set df \<and>
         (\<forall>b \<in> set df. timestamp b = p_date p \<longrightarrow> close_p b = p_price p) \<and>
         ((\<exists>b \<in> set df. year_of (timestamp b) = p_year p \<and> month_of (timestamp b) = p_month p \<and>
                         (p_year p, p_month p, nat dm) \<le> timestamp b) \<longrightarrow>
            (p_year p, p_month p, nat dm) \<le> p_date p \<and>
            (\<forall>b \<in> set df. year_of (timestamp b) = p_year p \<and> month_of (timestamp b) = p_month p \<and>
                           (p_year p, p_month p, nat dm) \<le> timestamp b \<longrightarrow>
                           p_date p \<le> timestamp b)) \<and>
         ((\<forall>b \<in> set df. year_of (timestamp b) = p_year p \<and> month_of (timestamp b) = p_month p \<longrightarrow>
                         timestamp b < (p_year p, p_month p, nat dm)) \<longrightarrow>
            (\<forall>b \<in> set df. year_of (timestamp b) = p_year p \<and> month_of (timestamp b) = p_month p \<longrightarrow>
                           timestamp b \<le> p_date p))"
proof -
  let ?md = "filter (\<lambda>b. year_of (timestamp b) = p_year p \<and> month_of (timestamp b) = p_month p) df"
  let ?ds = "map timestamp ?md"
  let ?target = "(p_year p, p_month p, nat dm)"
  from sp have res: "resolve_buy_date ?ds (p_year p) (p_month p) dm = Inr (p_date p)"
    by (simp add: scheduled_purchase_def)
  from sp obtain b where b: "b \<in> set df" and b1: "timestamp b = p_date p \<and> close_p b = p_price p \<and>
      year_of (timestamp b) = p_year p \<and> month_of (timestamp b) = p_month p"
    unfolding scheduled_purchase_def by (elim conjE bexE) (rule that, assumption, intro conjI)
  from b1 have bt: "timestamp b = p_date p" by (elim conjE)
  from b1 have bc: "close_p b = p_price p" by (elim conjE)
  from b1 have bym: "year_of (timestamp b) = p_year p \<and> month_of (timestamp b) = p_month p"
    by (elim conjE, intro conjI)
  from b bym have "?md \<noteq> []" by (auto simp: filter_empty_conv)
  then have ne: "?ds \<noteq> []" by simp
  from res obtain target where ts: "Timestamp (p_year p) (p_month p) dm = Inr target"
    by (auto simp: resolve_buy_date_def split: sum.splits)
  from Timestamp_InrD [OF ts] have tg: "target = ?target" .
  from resolve_buy_date_earliest [OF ts month_dates_sorted [OF asc] ne] res
  have e1: "(\<exists>x \<in> set ?ds. ?target \<le> x) \<longrightarrow>
              ?target \<le> p_date p \<and> (\<forall>x \<in> set ?ds. ?target \<le> x \<longrightarrow> p_date p \<le> x)"
    and e2: "(\<forall>x \<in> set ?ds. x < ?target) \<longrightarrow> (\<forall>x \<in> set ?ds. x \<le> p_date p)"
    unfolding tg by auto
  have ym: "year_of (p_date p) = p_year p \<and> month_of (p_date p) = p_month p"
    using bym unfolding bt .
  have mem: "p_date p \<in> timestamp ` set df"
    using b unfolding bt [symmetric] by (rule imageI)
  have price: "\<forall>c \<in> set df. timestamp c = p_date p \<longrightarrow> close_p c = p_price p"
  proof (intro ballI impI)
    fix c assume "c \<in> set df" "timestamp c = p_date p"
    with label_unique [OF asc b, of c] bt have "b = c" by simp
    with bc show "close_p c = p_price p" by simp
  qed
  have f1: "(\<exists>b \<in> set df. year_of (timestamp b) = p_year p \<and> month_of (timestamp b) = p_month p \<and>
                         ?target \<le> timestamp b) \<longrightarrow>
            ?target \<le> p_date p \<and>
            (\<forall>b \<in> set df. year_of (timestamp b) = p_year p \<and> month_of (timestamp b) = p_month p \<and>
                           ?target \<le> timestamp b \<longrightarrow> p_date p \<le> timestamp b)"
    using e1 by auto
  have f2: "(\<forall>b \<in> set df. year_of (timestamp b) = p_year p \<and> month_of (timestamp b) = p_month p \<longrightarrow>
                         timestamp b < ?target) \<longrightarrow>
            (\<forall>b \<in> set df. year_of (timestamp b) = p_year p \<and> month_of (timestamp b) = p_month p \<longrightarrow>
                           timestamp b \<le> p_date p)"
    using e2 by auto
  from conjunct1 [OF ym] conjunct2 [OF ym] mem price f1 f2 show ?thesis by (intro conjI)
qed

lemma log_dates_ascending:
  fixes ps :: "dca_purchase list"
  assumes keys: "sorted_wrt (<) (map (\<lambda>p. (p_year p, p_month p)) ps)"
    and ym: "\<forall>p \<in> set ps. year_of (p_date p) = p_year p \<and> month_of (p_date p) = p_month p"
  shows "sorted_wrt (<) (map p_date ps)"
proof -
  have "p_date (ps ! i) < p_date (ps ! j)" if "i < j" "j < length ps" for i j
  proof -
    from that have i: "i < length ps" by simp
    from keys that have "map (\<lambda>p. (p_year p, p_month p)) ps ! i <
                         map (\<lambda>p. (p_year p, p_month p)) ps ! j"
      by (simp add: sorted_wrt_iff_nth_less)
    then have "(p_year (ps ! i), p_month (ps ! i)) < (p_year (ps ! j), p_month (ps ! j))"
      using i that(2) by simp
    moreover have "year_of (p_date (ps ! i)) = p_year (ps ! i)"
      "month_of (p_date (ps ! i)) = p_month (ps ! i)"
      using ym i by simp_all
    moreover have "year_of (p_date (ps ! j)) = p_year (ps ! j)"
      "month_of (p_date (ps ! j)) = p_month (ps ! j)"
      using ym that(2) by simp_all
    ultimately show ?thesis by (intro month_before_date_before) simp
  qed
  then show ?thesis by (simp add: sorted_wrt_iff_nth_less)
qed

lemma log_totals_monotone:
  fixes ps :: "'a purchase_scheme list"
  assumes inv: "totals_inv ti tc ps"
    and nn: "\<forall>p \<in> set ps. 0 \<le> p_investment p \<and> 0 \<le> p_coins_bought p"
    and ij: "i \<le> j" "j < length ps"
  shows "p_total_invested (ps ! i) \<le> p_total_invested (ps ! j) \<and>
         p_total_coins (ps ! i) \<le> p_total_coins (ps ! j)"
proof -
  from ij have i: "i < length ps" by simp
  have a: "p_total_invested (ps ! k) = py_sum (take (Suc k) (map p_investment ps))"
    and b: "p_total_coins (ps ! k) = py_sum (take (Suc k) (map p_coins_bought ps))"
    if "k < length ps" for k
    using inv that by (simp_all add: totals_inv_def take_map)
  have "py_sum (take (Suc i) (map p_investment ps)) \<le> py_sum (take (Suc j) (map p_investment ps))"
    using nn ij(1) by (intro prefix_sum_mono) auto
  moreover
  have "py_sum (take (Suc i) (map p_coins_bought ps)) \<le>
        py_sum (take (Suc j) (map p_coins_bought ps))"
    using nn ij(1) by (intro prefix_sum_mono) auto
  ultimately show ?thesis using a [OF i] a [OF ij(2)] b [OF i] b [OF ij(2)] by simp
qed

subsection \<open>Cadence of the scheduled engine\<close>

lemma dca_finish_Some: "purchases s \<noteq> [] \<Longrightarrow> \<exists>r. dca_finish df s = Some r"
  by (simp add: dca_finish_def Let_def)

lemma run_dca_completes:
  assumes "valid_dates df" "df \<noteq> []" "1 \<le> dm" "dm \<le> 28"
  shows "\<exists>r. run_dca df mi dm = Inr (Some r)"
proof -
  have sub: "set (unique_months df) \<subseteq>
      set (map (\<lambda>b. (year_of (timestamp b), month_of (timestamp b))) df)"
    by (simp add: unique_months_set)
  from dca_loop_completes [OF sub assms(1,3,4)] obtain s where
    s: "dca_loop df mi dm dca_init (unique_months df) = Inr s" ..
  from dca_loop_length [OF s] unique_months_nonempty [OF assms(2)]
  have "purchases s \<noteq> []" by auto
  from dca_finish_Some [OF this] obtain r where "dca_finish df s = Some r" ..
  with s assms(2) have "run_dca df mi dm = Inr (Some r)" by (simp add: run_dca_def)
  then show ?thesis ..
qed

lemma run_dca_log:
  assumes "run_dca df mi dm = Inr (Some r)"
  shows "map (\<lambda>p. (p_year p, p_month p)) (r_purchases r) = unique_months df \<and>
         r_num_purchases r = length (unique_months df) \<and>
         list_all (scheduled_purchase df mi dm) (r_purchases r) \<and>
         r_total_invested r = real (length (unique_months df)) * mi"
proof -
  from run_dca_SomeD [OF assms] obtain s where
    s: "dca_loop df mi dm dca_init (unique_months df) = Inr s \<and> dca_finish df s = Some r" ..
  from dca_loop_length [OF conjunct1 [OF s]] dca_finish_fields [OF conjunct2 [OF s]]
  show ?thesis by simp
qed

text \<open>
  The cadence of the scheduled engine, on a frame whose labels are strictly ascending.
  With a day of the month from 1 to 28 the run on a non-empty frame of existing calendar
  days returns a result. Whenever the run returns a result: the purchase log has exactly
  one entry for every distinct (year, month) of the frame, in ascending order of the
  month, so the number of purchases is the number of months with data and the purchase
  dates are strictly ascending; every entry spends \<open>monthly_investment\<close> at the close of
  the row it bought on, which is the earliest row of its month on or after the target day
  when there is one and the last row of the month otherwise; \<open>total_invested\<close> is the
  number of purchases times \<open>monthly_investment\<close>; and with a non-negative
  \<open>monthly_investment\<close> and positive prices the running totals of invested cash and of
  coins never decrease along the log.
\<close>

lemma scheduled_cadence:
  assumes asc: "ascending df"
  shows
  "(valid_dates df \<and> df \<noteq> [] \<and> 1 \<le> day_of_month \<and> day_of_month \<le> 28 \<longrightarrow>
      (\<exists>r. run_dca df monthly_investment day_of_month = Inr (Some r))) \<and>
   (\<forall>r. run_dca df monthly_investment day_of_month = Inr (Some r) \<longrightarrow>
      distinct (unique_months df) \<and>
      set (unique_months df) = (\<lambda>b. (year_of (timestamp b), month_of (timestamp b))) ` set df \<and>
      map (\<lambda>p. (p_year p, p_month p)) (r_purchases r) = unique_months df \<and>
      r_num_purchases r = length (r_purchases r) \<and>
      r_num_purchases r =
        card ((\<lambda>b. (year_of (timestamp b), month_of (timestamp b))) ` set df) \<and>
      r_total_invested r = real (r_num_purchases r) * monthly_investment \<and>
      sorted_wrt (<) (map p_date (r_purchases r)) \<and>
      (\<forall>p \<in> set (r_purchases r).
         p_investment p = monthly_investment \<and>
         p_coins_bought p = monthly_investment / p_price p \<and>
         year_of (p_date p) = p_year p \<and> month_of (p_date p) = p_month p \<and>
         p_date p \<in> timestamp ` set df \<and>
         (\<forall>b \<in> set df. timestamp b = p_date p \<longrightarrow> close_p b = p_price p) \<and>
         ((\<exists>b \<in> set df. year_of (timestamp b) = p_year p \<and> month_of (timestamp b) = p_month p \<and>
                         (p_year p, p_month p, nat day_of_month) \<le> timestamp b) \<longrightarrow>
            (p_year p, p_month p, nat day_of_month) \<le> p_date p \<and>
            (\<forall>b \<in> set df. year_of (timestamp b) = p_year p \<and>
                           month_of (timestamp b) = p_month p \<and>
                           (p_year p, p_month p, nat day_of_month) \<le> timestamp b \<longrightarrow>
                           p_date p \<le> timestamp b)) \<and>
         ((\<forall>b \<in> set df. year_of (timestamp b) = p_year p \<and> month_of (timestamp b) = p_month p \<longrightarrow>
                         timestamp b < (p_year p, p_month p, nat day_of_month)) \<longrightarrow>
            (\<forall>b \<in> set df. year_of (timestamp b) = p_year p \<and>
                           month_of (timestamp b) = p_month p \<longrightarrow>
                           timestamp b \<le> p_date p))) \<and>
      (0 \<le> monthly_investment \<and> positive_prices df \<longrightarrow>
         (\<forall>i j. i \<le> j \<and> j < length (r_purchases r) \<longrightarrow>
            p_total_invested (r_purchases r ! i) \<le> p_total_invested (r_purchases r ! j) \<and>
            p_total_coins (r_purchases r ! i) \<le> p_total_coins (r_purchases r ! j))))"
proof (rule conjI)
  show "valid_dates df \<and> df \<noteq> [] \<and> 1 \<le> day_of_month \<and> day_of_month \<le> 28 \<longrightarrow>
      (\<exists>r. run_dca df monthly_investment day_of_month = Inr (Some r))"
    by (auto intro: run_dca_completes)
next
  let ?key = "\<lambda>b. (year_of (timestamp b), month_of (timestamp b))"
  show "\<forall>r. run_dca df monthly_investment day_of_month = Inr (Some r) \<longrightarrow>
      distinct (unique_months df) \<and>
      set (unique_months df) = ?key ` set df \<and>
      map (\<lambda>p. (p_year p, p_month p)) (r_purchases r) = unique_months df \<and>
      r_num_purchases r = length (r_purchases r) \<and>
      r_num_purchases r = card (?key ` set df) \<and>
      r_total_invested r = real (r_num_purchases r) * monthly_investment \<and>
      sorted_wrt (<) (map p_date (r_purchases r)) \<and>
      (\<forall>p \<in> set (r_purchases r).
         p_investment p = monthly_investment \<and>
         p_coins_bought p = monthly_investment / p_price p \<and>
         year_of (p_date p) = p_year p \<and> month_of (p_date p) = p_month p \<and>
         p_date p \<in> timestamp ` set df \<and>
         (\<forall>b \<in> set df. timestamp b = p_date p \<longrightarrow> close_p b = p_price p) \<and>
         ((\<exists>b \<in> set df. year_of (timestamp b) = p_year p \<and> month_of (timestamp b) = p_month p \<and>
                         (p_year p, p_month p, nat day_of_month) \<le> timestamp b) \<longrightarrow>
            (p_year p, p_month p, nat day_of_month) \<le> p_date p \<and>
            (\<forall>b \<in> set df. year_of (timestamp b) = p_year p \<and>
                           month_of (timestamp b) = p_month p \<and>
                           (p_year p, p_month p, nat day_of_month) \<le> timestamp b \<longrightarrow>
                           p_date p \<le> timestamp b)) \<and>
         ((\<forall>b \<in> set df. year_of (timestamp b) = p_year p \<and> month_of (timestamp b) = p_month p \<longrightarrow>
                         timestamp b < (p_year p, p_month p, nat day_of_month)) \<longrightarrow>
            (\<forall>b \<in> set df. year_of (timestamp b) = p_year p \<and>
                           month_of (timestamp b) = p_month p \<longrightarrow>
                           timestamp b \<le> p_date p))) \<and>
      (0 \<le> monthly_investment \<and> positive_prices df \<longrightarrow>
         (\<forall>i j. i \<le> j \<and> j < length (r_purchases r) \<longrightarrow>
            p_total_invested (r_purchases r ! i) \<le> p_total_invested (r_purchases r ! j) \<and>
            p_total_coins (r_purchases r ! i) \<le> p_total_coins (r_purchases r ! j)))"
  proof (intro allI impI)
    fix r
    assume run: "run_dca df monthly_investment day_of_month = Inr (Some r)"
    let ?ps = "r_purchases r"
    note log = run_dca_log [OF run]
    from log have keys: "map (\<lambda>p. (p_year p, p_month p)) ?ps = unique_months df"
      and num: "r_num_purchases r = length (unique_months df)"
      and sched: "list_all (scheduled_purchase df monthly_investment day_of_month) ?ps"
      and ti: "r_total_invested r = real (length (unique_months df)) * monthly_investment"
      by simp_all
    have dist: "distinct (unique_months df)"
      by (simp add: unique_months_def)
    have uset: "set (unique_months df) = ?key ` set df"
      by (simp add: unique_months_set)
    from keys have "length (map (\<lambda>p. (p_year p, p_month p)) ?ps) = length (unique_months df)"
      by simp
    then have len: "length ?ps = length (unique_months df)" by simp
    have numlen: "r_num_purchases r = length ?ps" using num len by simp
    have "card (set (unique_months df)) = length (unique_months df)"
      using dist by (rule distinct_card)
    then have crd: "r_num_purchases r = card (?key ` set df)"
      using num uset by simp
    have tin: "r_total_invested r = real (r_num_purchases r) * monthly_investment"
      using ti num by simp
    have each: "scheduled_purchase df monthly_investment day_of_month p" if "p \<in> set ?ps" for p
      using sched that by (simp add: list_all_iff)
    have ym: "\<forall>p \<in> set ?ps. year_of (p_date p) = p_year p \<and> month_of (p_date p) = p_month p"
    proof
      fix p assume "p \<in> set ?ps"
      from scheduled_purchase_date [OF asc each [OF this]]
      show "year_of (p_date p) = p_year p \<and> month_of (p_date p) = p_month p" by simp
    qed
    have "sorted_wrt (<) (map (\<lambda>p. (p_year p, p_month p)) ?ps)"
      unfolding keys by (rule unique_months_strict)
    then have dates: "sorted_wrt (<) (map p_date ?ps)"
      using ym by (rule log_dates_ascending)
    have perp: "\<forall>p \<in> set ?ps.
         p_investment p = monthly_investment \<and>
         p_coins_bought p = monthly_investment / p_price p \<and>
         year_of (p_date p) = p_year p \<and> month_of (p_date p) = p_month p \<and>
         p_date p \<in> timestamp ` set df \<and>
         (\<forall>b \<in> set df. timestamp b = p_date p \<longrightarrow> close_p b = p_price p) \<and>
         ((\<exists>b \<in> set df. year_of (timestamp b) = p_year p \<and> month_of (timestamp b) = p_month p \<and>
                         (p_year p, p_month p, nat day_of_month) \<le> timestamp b) \<longrightarrow>
            (p_year p, p_month p, nat day_of_month) \<le> p_date p \<and>
            (\<forall>b \<in> set df. year_of (timestamp b) = p_year p \<and>
                           month_of (timestamp b) = p_month p \<and>
                           (p_year p, p_month p, nat day_of_month) \<le> timestamp b \<longrightarrow>
                           p_date p \<le> timestamp b)) \<and>
         ((\<forall>b \<in> set df. year_of (timestamp b) = p_year p \<and> month_of (timestamp b) = p_month p \<longrightarrow>
                         timestamp b < (p_year p, p_month p, nat day_of_month)) \<longrightarrow>
            (\<forall>b \<in> set df. year_of (timestamp b) = p_year p \<and>
                           month_of (timestamp b) = p_month p \<longrightarrow>
                           timestamp b \<le> p_date p))"
    proof
      fix p assume "p \<in> set ?ps"
      note sp = each [OF this]
      from sp have a: "p_investment p = monthly_investment"
        and b: "p_coins_bought p = monthly_investment / p_price p"
        by (simp_all add: scheduled_purchase_def)
      from a b scheduled_purchase_date [OF asc sp]
      show "p_investment p = monthly_investment \<and>
         p_coins_bought p = monthly_investment / p_price p \<and>
         year_of (p_date p) = p_year p \<and> month_of (p_date p) = p_month p \<and>
         p_date p \<in> timestamp ` set df \<and>
         (\<forall>b \<in> set df. timestamp b = p_date p \<longrightarrow> close_p b = p_price p) \<and>
         ((\<exists>b \<in> set df. year_of (timestamp b) = p_year p \<and> month_of (timestamp b) = p_month p \<and>
                         (p_year p, p_month p, nat day_of_month) \<le> timestamp b) \<longrightarrow>
            (p_year p, p_month p, nat day_of_month) \<le> p_date p \<and>
            (\<forall>b \<in> set df. year_of (timestamp b) = p_year p \<and>
                           month_of (timestamp b) = p_month p \<and>
                           (p_year p, p_month p, nat day_of_month) \<le> timestamp b \<longrightarrow>
                           p_date p \<le> timestamp b)) \<and>
         ((\<forall>b \<in> set df. year_of (timestamp b) = p_year p \<and> month_of (timestamp b) = p_month p \<longrightarrow>
                         timestamp b < (p_year p, p_month p, nat day_of_month)) \<longrightarrow>
            (\<forall>b \<in> set df. year_of (timestamp b) = p_year p \<and>
                           month_of (timestamp b) = p_month p \<longrightarrow>
                           timestamp b \<le> p_date p))"
        by (rule conjI [OF _ conjI])
    qed
    have mono: "0 \<le> monthly_investment \<and> positive_prices df \<longrightarrow>
         (\<forall>i j. i \<le> j \<and> j < length ?ps \<longrightarrow>
            p_total_invested (?ps ! i) \<le> p_total_invested (?ps ! j) \<and>
            p_total_coins (?ps ! i) \<le> p_total_coins (?ps ! j))"
    proof (intro impI allI)
      fix i j
      assume h: "0 \<le> monthly_investment \<and> positive_prices df"
        and ij: "i \<le> j \<and> j < length ?ps"
      have nn: "\<forall>p \<in> set ?ps. 0 \<le> p_investment p \<and> 0 \<le> p_coins_bought p"
      proof
        fix p assume p: "p \<in> set ?ps"
        note sp = each [OF p]
        from sp obtain b where b: "b \<in> set df" and b1: "timestamp b = p_date p \<and>
            close_p b = p_price p \<and> year_of (timestamp b) = p_year p \<and>
            month_of (timestamp b) = p_month p"
          unfolding scheduled_purchase_def
          by (elim conjE bexE) (rule that, assumption, intro conjI)
        from b1 have bc: "close_p b = p_price p" by (elim conjE)
        from h b have "0 < close_p b" by (simp add: positive_prices_def list_all_iff)
        then have "0 < p_price p" using bc by simp
        moreover from sp have "p_investment p = monthly_investment"
          "p_coins_bought p = monthly_investment / p_price p"
          by (simp_all add: scheduled_purchase_def)
        ultimately show "0 \<le> p_investment p \<and> 0 \<le> p_coins_bought p"
          using h by simp
      qed
      from log_totals_monotone [OF run_dca_totals [OF run] nn] ij
      show "p_total_invested (?ps ! i) \<le> p_total_invested (?ps ! j) \<and>
            p_total_coins (?ps ! i) \<le> p_total_coins (?ps ! j)"
        by simp
    qed
    from dist uset keys numlen crd tin dates perp mono
    show "distinct (unique_months df) \<and>
      set (unique_months df) = ?key ` set df \<and>
      map (\<lambda>p. (p_year p, p_month p)) (r_purchases r) = unique_months df \<and>
      r_num_purchases r = length (r_purchases r) \<and>
      r_num_purchases r = card (?key ` set df) \<and>
      r_total_invested r = real (r_num_purchases r) * monthly_investment \<and>
      sorted_wrt (<) (map p_date (r_purchases r)) \<and>
      (\<forall>p \<in> set (r_purchases r).
         p_investment p = monthly_investment \<and>
         p_coins_bought p = monthly_investment / p_price p \<and>
         year_of (p_date p) = p_year p \<and> month_of (p_date p) = p_month p \<and>
         p_date p \<in> timestamp ` set df \<and>
         (\<forall>b \<in> set df. timestamp b = p_date p \<longrightarrow> close_p b = p_price p) \<and>
         ((\<exists>b \<in> set df. year_of (timestamp b) = p_year p \<and> month_of (timestamp b) = p_month p \<and>
                         (p_year p, p_month p, nat day_of_month) \<le> timestamp b) \<longrightarrow>
            (p_year p, p_month p, nat day_of_month) \<le> p_date p \<and>
            (\<forall>b \<in> set df. year_of (timestamp b) = p_year p \<and>
                           month_of (timestamp b) = p_month p \<and>
                           (p_year p, p_month p, nat day_of_month) \<le> timestamp b \<longrightarrow>
                           p_date p \<le> timestamp b)) \<and>
         ((\<forall>b \<in> set df. year_of (timestamp b) = p_year p \<and> month_of (timestamp b) = p_month p \<longrightarrow>
                         timestamp b < (p_year p, p_month p, nat day_of_month)) \<longrightarrow>
            (\<forall>b \<in> set df. year_of (timestamp b) = p_year p \<and>
                           month_of (timestamp b) = p_month p \<longrightarrow>
                           timestamp b \<le> p_date p))) \<and>
      (0 \<le> monthly_investment \<and> positive_prices df \<longrightarrow>
         (\<forall>i j. i \<le> j \<and> j < length (r_purchases r) \<longrightarrow>
            p_total_invested (r_purchases r ! i) \<le> p_total_invested (r_purchases r ! j) \<and>
            p_total_coins (r_purchases r ! i) \<le> p_total_coins (r_purchases r ! j)))"
      by (intro conjI)
  qed
qed

lemma scheduled_cadence_witness:
  "ascending three_months \<and> valid_dates three_months \<and> positive_prices three_months \<and>
   (\<exists>r. run_dca three_months 1000 5 = Inr (Some r) \<and> r_num_purchases r = 3 \<and>
        map p_date (r_purchases r) = [(2023, 1, 5), (2023, 2, 6), (2023, 3, 2)] \<and>
        map p_price (r_purchases r) = [100, 120, 80] \<and>
        r_total_invested r = 3000 \<and>
        p_total_coins (r_purchases r ! 0) \<le> p_total_coins (r_purchases r ! 2))"
proof -
  have asc: "ascending three_months"
    by (simp add: ascending_def three_months_def candle_def less_prod_def)
  have val: "valid_dates three_months"
    by (simp add: valid_dates_def three_months_def candle_def Timestamp_def days_in_month_def
        is_leap_def year_of_def month_of_def day_of_def)
  have pp: "positive_prices three_months"
    by (simp add: positive_prices_def three_months_def candle_def)
  have um: "unique_months three_months = [(2023, 1), (2023, 2), (2023, 3)]"
    by code_simp
  have "\<exists>r. run_dca three_months 1000 5 = Inr (Some r) \<and> r_num_purchases r = 3 \<and>
        map p_date (r_purchases r) = [(2023, 1, 5), (2023, 2, 6), (2023, 3, 2)] \<and>
        map p_price (r_purchases r) = [100, 120, 80]"
    unfolding run_dca_def um
    by (simp add: dca_step_def dca_finish_def dca_init_def resolve_buy_date_def
        Timestamp_def days_in_month_def loc_close_def three_months_def candle_def
        year_of_def month_of_def Let_def less_eq_prod_def less_prod_def)
  then obtain r where r: "run_dca three_months 1000 5 = Inr (Some r) \<and> r_num_purchases r = 3 \<and>
        map p_date (r_purchases r) = [(2023, 1, 5), (2023, 2, 6), (2023, 3, 2)] \<and>
        map p_price (r_purchases r) = [100, 120, 80]" ..
  note c = scheduled_cadence [OF asc, of 5 1000]
  from c r have len: "r_num_purchases r = length (r_purchases r)" by simp
  from c r have "r_total_invested r = real (r_num_purchases r) * 1000" by simp
  with r have ti: "r_total_invested r = 3000" by simp
  from c r pp have "\<forall>i j. i \<le> j \<and> j < length (r_purchases r) \<longrightarrow>
            p_total_invested (r_purchases r ! i) \<le> p_total_invested (r_purchases r ! j) \<and>
            p_total_coins (r_purchases r ! i) \<le> p_total_coins (r_purchases r ! j)"
    by simp
  moreover have "(0::nat) \<le> 2 \<and> 2 < length (r_purchases r)" using len r by simp
  ultimately have mono: "p_total_coins (r_purchases r ! 0) \<le> p_total_coins (r_purchases r ! 2)"
    by blast
  have "run_dca three_months 1000 5 = Inr (Some r) \<and> r_num_purchases r = 3 \<and>
        map p_date (r_purchases r) = [(2023, 1, 5), (2023, 2, 6), (2023, 3, 2)] \<and>
        map p_price (r_purchases r) = [100, 120, 80] \<and>
        r_total_invested r = 3000 \<and>
        p_total_coins (r_purchases r ! 0) \<le> p_total_coins (r_purchases r ! 2)"
    using r ti mono by simp
  then have ex: "\<exists>r. run_dca three_months 1000 5 = Inr (Some r) \<and> r_num_purchases r = 3 \<and>
        map p_date (r_purchases r) = [(2023, 1, 5), (2023, 2, 6), (2023, 3, 2)] \<and>
        map p_price (r_purchases r) = [100, 120, 80] \<and>
        r_total_invested r = 3000 \<and>
        p_total_coins (r_purchases r ! 0) \<le> p_total_coins (r_purchases r ! 2)"
    by (rule exI)
  from asc val pp ex show ?thesis by (intro conjI)
qed

text \<open>
  C4, at a day of the month that the month does not have. April 2023 has the trading dates
  27 and 28, so the frame has one month with data; with \<open>day_of_month = 31\<close> the run
  raises ValueError when it builds the target date and makes no purchase for that month.
\<close>

theorem cadence_broken_by_absent_day:
  "unique_months april = [(2023, 4)] \<and>
   filter (\<lambda>b. year_of (timestamp b) = 2023 \<and> month_of (timestamp b) = 4) april = april \<and>
   run_dca april 10000 31 = Inl ValueError"
  by code_simp

section \<open>Properties of the comparison\<close>

lemma distinct_singleton_set:
  assumes "distinct xs" "set xs = {k}"
  shows "xs = [k]"
proof (cases xs)
  case Nil
  with assms(2) show ?thesis by simp
next
  case (Cons a ys)
  with assms(2) have a: "a = k" by auto
  from Cons assms(1) have "a \<notin> set ys" by simp
  moreover from Cons assms(2) have "set ys \<subseteq> {k}" by auto
  ultimately have "ys = []" using a by (cases ys) auto
  then show ?thesis using Cons a by simp
qed

lemma unique_months_single:
  assumes "\<forall>b \<in> set df. (year_of (timestamp b), month_of (timestamp b)) = k" "df \<noteq> []"
  shows "unique_months df = [k]"
proof -
  from assms(2) obtain b where "b \<in> set df" by (cases df) auto
  with assms(1) have "(\<lambda>b. (year_of (timestamp b), month_of (timestamp b))) ` set df = {k}"
    by (auto simp: image_iff)
  then have "set (unique_months df) = {k}"
    by (simp add: unique_months_set)
  moreover have "distinct (unique_months df)" by (simp add: unique_months_def)
  ultimately show ?thesis by (rule distinct_singleton_set [rotated])
qed

lemma january_months: "unique_months january = [(2023, 1)]"
  by (rule unique_months_single)
     (auto simp: january_def candle_def year_of_def month_of_def)

lemma january_dca:
  "\<exists>r. run_dca january 3000 5 = Inr (Some r) \<and> r_total_coins r = 30 \<and> r_avg_cost r = 100 \<and>
       r_return_pct r = 10 \<and> r_total_invested r = 3000"
  unfolding run_dca_def january_months
  by (simp add: january_def dca_step_def dca_finish_def dca_init_def resolve_buy_date_def
      Timestamp_def days_in_month_def loc_close_def candle_def
      year_of_def month_of_def Let_def less_eq_prod_def less_prod_def)

lemma january_dip:
  "\<exists>r. run_strategy january 3000 (- 5) = Inr (Some r) \<and> r_total_coins r = 30 \<and>
       r_avg_cost r = 100 \<and> r_return_pct r = 300 / 31 \<and> r_total_invested r = 3000 \<and>
       r_total_should_save r = 3100"
  by (simp add: january_def run_strategy_def dip_finish_def dip_step_def dip_init_def
      daily_return_def candle_def Let_def)

text \<open>
  C7 as stated fails. On the 31 daily rows of January 2023 below, with 3000 a month, day 5
  and threshold -5, both strategies end with 30 coins at an average cost of 100; Simple
  DCA has the higher return and the higher capital utilization. Each strategy wins two of
  the four metrics, so an unweighted tally is 2 to 2 (and \<open>max\<close> would then name Simple
  DCA), but the code's scores are 3 to 5 and it declares Buy the Dip the winner.
\<close>

theorem weighted_tally_counterexample:
  "compare_strategies january 3000 (- 5) 5 =
     Inr (\<lparr>Simple_DCA = 3, Buy_the_Dip = 5\<rparr>, ''Buy the Dip'') \<and>
   compare_strategies_unweighted january 3000 (- 5) 5 =
     Inr (\<lparr>Simple_DCA = 2, Buy_the_Dip = 2\<rparr>, ''Simple DCA'')"
proof -
  from january_dca obtain a where a: "run_dca january 3000 5 = Inr (Some a) \<and>
      r_total_coins a = 30 \<and> r_avg_cost a = 100 \<and> r_return_pct a = 10 \<and>
      r_total_invested a = 3000" ..
  from january_dip obtain b where b: "run_strategy january 3000 (- 5) = Inr (Some b) \<and>
      r_total_coins b = 30 \<and> r_avg_cost b = 100 \<and> r_return_pct b = 300 / 31 \<and>
      r_total_invested b = 3000 \<and> r_total_should_save b = 3100" ..
  have run: "run_all_strategies january 3000 (- 5) 5 = Inr (Some a, Some b)"
    using a b by (simp add: run_all_strategies_def)
  have w: "comparison_scores a b = \<lparr>Simple_DCA = 3, Buy_the_Dip = 5\<rparr>"
    using a b by (simp add: comparison_scores_def Let_def)
  have u: "unweighted_scores a b = \<lparr>Simple_DCA = 2, Buy_the_Dip = 2\<rparr>"
    using a b by (simp add: unweighted_scores_def metrics_won_def)
  show ?thesis
    by (simp add: compare_strategies_def compare_strategies_unweighted_def run
        print_comparison_def w u max_scores_key_def)
qed

text \<open>
  C7, as the code has it. The tally is weighted: the winner of the units metric gets 3
  points, the winners of the average cost and of the return metric 2 points each, the
  winner of the capital utilization metric 1 point, 8 points in all; a metric on which
  Simple DCA is not strictly better goes to Buy the Dip. The declared winner is the
  strategy with the higher score, Simple DCA when the scores are equal; since the scores
  add up to 8, that is Simple DCA exactly when its score is at least 4. A strategy that
  wins more metrics than the other is also the declared winner.
\<close>

theorem weighted_tally:
  "Simple_DCA (comparison_scores dca_r dip_r) =
     (if r_total_coins dca_r > r_total_coins dip_r then 3 else 0) +
     (if r_avg_cost dca_r < r_avg_cost dip_r then 2 else 0) +
     (if r_return_pct dca_r > r_return_pct dip_r then 2 else 0) +
     (if (r_total_invested dca_r / r_total_invested dca_r) * 100 >
         (r_total_invested dip_r / r_total_should_save dip_r) * 100 then 1 else 0) \<and>
   Simple_DCA (comparison_scores dca_r dip_r) + Buy_the_Dip (comparison_scores dca_r dip_r) = 8 \<and>
   print_comparison (Some dca_r) (Some dip_r) =
     Inr (comparison_scores dca_r dip_r,
          if Simple_DCA (comparison_scores dca_r dip_r) \<ge> 4
          then ''Simple DCA'' else ''Buy the Dip'') \<and>
   (Simple_DCA (unweighted_scores dca_r dip_r) > Buy_the_Dip (unweighted_scores dca_r dip_r) \<longrightarrow>
      print_comparison (Some dca_r) (Some dip_r) =
        Inr (comparison_scores dca_r dip_r, ''Simple DCA'')) \<and>
   (Simple_DCA (unweighted_scores dca_r dip_r) < Buy_the_Dip (unweighted_scores dca_r dip_r) \<longrightarrow>
      print_comparison (Some dca_r) (Some dip_r) =
        Inr (comparison_scores dca_r dip_r, ''Buy the Dip''))"
proof -
  define u where "u = (r_total_coins dca_r > r_total_coins dip_r)"
  define a where "a = (r_avg_cost dca_r < r_avg_cost dip_r)"
  define r where "r = (r_return_pct dca_r > r_return_pct dip_r)"
  define c where "c = ((r_total_invested dca_r / r_total_invested dca_r) * 100 >
         (r_total_invested dip_r / r_total_should_save dip_r) * 100)"
  have sc: "comparison_scores dca_r dip_r =
      \<lparr>Simple_DCA = (if u then 3 else 0) + (if a then 2 else 0) + (if r then 2 else 0) +
                     (if c then 1 else 0),
       Buy_the_Dip = (if u then 0 else 3) + (if a then 0 else 2) + (if r then 0 else 2) +
                     (if c then 0 else 1)\<rparr>"
    unfolding comparison_scores_def Let_def u_def [symmetric] a_def [symmetric]
      r_def [symmetric] c_def [symmetric]
    by (cases u; cases a; cases r; cases c; simp)
  have un: "unweighted_scores dca_r dip_r =
      \<lparr>Simple_DCA = (if u then 1 else 0) + (if a then 1 else 0) + (if r then 1 else 0) +
                     (if c then 1 else 0),
       Buy_the_Dip = (if u then 0 else 1) + (if a then 0 else 1) + (if r then 0 else 1) +
                     (if c then 0 else 1)\<rparr>"
    unfolding unweighted_scores_def metrics_won_def u_def [symmetric] a_def [symmetric]
      r_def [symmetric] c_def [symmetric]
    by (cases u; cases a; cases r; cases c; simp)
  have s1: "Simple_DCA (comparison_scores dca_r dip_r) =
      (if u then 3 else 0) + (if a then 2 else 0) + (if r then 2 else 0) + (if c then 1 else 0)"
    and s2: "Buy_the_Dip (comparison_scores dca_r dip_r) =
      (if u then 0 else 3) + (if a then 0 else 2) + (if r then 0 else 2) + (if c then 0 else 1)"
    by (simp_all add: sc)
  have u1: "Simple_DCA (unweighted_scores dca_r dip_r) =
      (if u then 1 else 0) + (if a then 1 else 0) + (if r then 1 else 0) + (if c then 1 else 0)"
    and u2: "Buy_the_Dip (unweighted_scores dca_r dip_r) =
      (if u then 0 else 1) + (if a then 0 else 1) + (if r then 0 else 1) + (if c then 0 else 1)"
    by (simp_all add: un)
  show ?thesis
    unfolding u_def [symmetric] a_def [symmetric] r_def [symmetric] c_def [symmetric]
      print_comparison_def max_scores_key_def option.case s1 s2 u1 u2
    by (cases u; cases a; cases r; cases c; simp)
qed

theorem weighted_tally_witness:
  "\<exists>a b. run_all_strategies two_dips 1500 (- 5) 5 = Inr (Some a, Some b) \<and>
         Simple_DCA (unweighted_scores a b) > Buy_the_Dip (unweighted_scores a b) \<and>
         print_comparison (Some a) (Some b) =
           Inr (\<lparr>Simple_DCA = 8, Buy_the_Dip = 0\<rparr>, ''Simple DCA'')"
proof -
  have um: "unique_months two_dips = [(2023, 1)]"
    by (rule unique_months_single)
       (auto simp: two_dips_def candle_def year_of_def month_of_def)
  have "\<exists>r. run_dca two_dips 1500 5 = Inr (Some r) \<and> r_total_coins r = 1500 / 81 \<and>
      r_avg_cost r = 81 \<and> r_return_pct r = 0 \<and> r_total_invested r = 1500"
    unfolding run_dca_def um
    by (simp add: dca_step_def dca_finish_def dca_init_def resolve_buy_date_def
        Timestamp_def days_in_month_def loc_close_def two_dips_def candle_def
        year_of_def month_of_def Let_def less_eq_prod_def less_prod_def)
  then obtain a where a: "run_dca two_dips 1500 5 = Inr (Some a) \<and>
      r_total_coins a = 1500 / 81 \<and> r_avg_cost a = 81 \<and> r_return_pct a = 0 \<and>
      r_total_invested a = 1500" ..
  have "\<exists>r. run_strategy two_dips 1500 (- 5) = Inr (Some r) \<and>
      r_total_coins r = 10 / 9 \<and> r_avg_cost r = 90 \<and> r_return_pct r = - 5 \<and>
      r_total_invested r = 100 \<and> r_total_should_save r = 200"
    by (simp add: run_strategy_def dip_finish_def dip_step_def dip_init_def daily_return_def
        two_dips_def candle_def Let_def)
  then obtain b where b: "run_strategy two_dips 1500 (- 5) = Inr (Some b) \<and>
      r_total_coins b = 10 / 9 \<and> r_avg_cost b = 90 \<and> r_return_pct b = - 5 \<and>
      r_total_invested b = 100 \<and> r_total_should_save b = 200" ..
  have run: "run_all_strategies two_dips 1500 (- 5) 5 = Inr (Some a, Some b)"
    using a b by (simp add: run_all_strategies_def)
  have gt: "Simple_DCA (unweighted_scores a b) > Buy_the_Dip (unweighted_scores a b)"
    using a b by (simp add: unweighted_scores_def metrics_won_def)
  have w: "comparison_scores a b = \<lparr>Simple_DCA = 8, Buy_the_Dip = 0\<rparr>"
    using a b by (simp add: comparison_scores_def Let_def)
  from weighted_tally [of a b]
  have imp: "Simple_DCA (unweighted_scores a b) > Buy_the_Dip (unweighted_scores a b) \<longrightarrow>
      print_comparison (Some a) (Some b) = Inr (comparison_scores a b, ''Simple DCA'')"
    by (elim conjE)
  from imp gt
  have "print_comparison (Some a) (Some b) = Inr (comparison_scores a b, ''Simple DCA'')"
    by (rule mp)
  then have p: "print_comparison (Some a) (Some b) =
           Inr (\<lparr>Simple_DCA = 8, Buy_the_Dip = 0\<rparr>, ''Simple DCA'')"
    unfolding w .
  have "run_all_strategies two_dips 1500 (- 5) 5 = Inr (Some a, Some b) \<and>
         Simple_DCA (unweighted_scores a b) > Buy_the_Dip (unweighted_scores a b) \<and>
         print_comparison (Some a) (Some b) =
           Inr (\<lparr>Simple_DCA = 8, Buy_the_Dip = 0\<rparr>, ''Simple DCA'')"
    using run gt p by (intro conjI)
  then show ?thesis by (intro exI)
qed

end
